theory Spec2Isabelle
  imports Main "HOL-Library.Word" "HOL-Library.Signed_Division"
begin

unbundle bit_operations_syntax


section \<open>Go integers\<close>

text \<open>
  Go's \<open>int64\<close> (and \<open>time.Duration\<close>, which is an \<open>int64\<close> count of nanoseconds) is a
  64-bit word read in two's complement: \<open>+\<close>, \<open>-\<close> and \<open>*\<close> wrap around, comparisons are
  signed, and \<open>/\<close> truncates towards zero.
\<close>

type_synonym int64 = "64 word"

definition i64_div :: "int64 \<Rightarrow> int64 \<Rightarrow> int64" where
  "i64_div a b = word_of_int (sint a sdiv sint b)"

definition i64_less :: "int64 \<Rightarrow> int64 \<Rightarrow> bool" where
  "i64_less a b = (sint a < sint b)"

text \<open>
  Modelled from the spec: the helpers \<open>cos.AbsI64\<close>, \<open>cos.MinI64\<close>, \<open>cos.MaxI64\<close> and
  \<open>cos.DivRound\<close> are called by \<open>updateTimeoutForDaemon\<close> but their package is not part of
  the sources at hand. They are the absolute value, the minimum and the maximum of
  \<open>int64\<close> values, and the division "with rounding" of section 4.3: half of the divisor is
  added before Go's truncating division.
\<close>

definition AbsI64 :: "int64 \<Rightarrow> int64" where
  "AbsI64 a = (if i64_less a 0 then - a else a)"

definition MinI64 :: "int64 \<Rightarrow> int64 \<Rightarrow> int64" where
  "MinI64 a b = (if i64_less a b then a else b)"

definition MaxI64 :: "int64 \<Rightarrow> int64 \<Rightarrow> int64" where
  "MaxI64 a b = (if i64_less b a then a else b)"

definition DivRound :: "int64 \<Rightarrow> int64 \<Rightarrow> int64" where
  "DivRound a b = i64_div (a + i64_div b 2) b"

section \<open>Keepalive: per-peer timeout statistics\<close>

record timeoutStats =
  srtt :: int64
  rttvar :: int64
  timeout :: int64

text \<open>
  The fields of \<open>keepalive\<close> that the timeout computation reads and writes: the cached
  \<open>maxKeepalive\<close> and the map of the \<open>timeoutTracker\<close>. The Go map holds pointers to
  \<open>timeoutStats\<close>; the only aliasing is that \<open>updateTimeoutForDaemon\<close> mutates the entry it
  has just looked up, which is written here as storing the updated record back.
\<close>

record keepalive =
  maxKeepalive :: int64
  tt :: "string \<rightharpoonup> timeoutStats"

definition timeoutStatsForDaemon :: "keepalive \<Rightarrow> string \<Rightarrow> timeoutStats \<times> keepalive" where
  "timeoutStatsForDaemon k sid =
     (case tt k sid of
        Some ts \<Rightarrow> (ts, k)
      | None \<Rightarrow>
          (let ts = \<lparr>srtt = maxKeepalive k, rttvar = i64_div (maxKeepalive k) 2,
                     timeout = maxKeepalive k\<rparr>
           in (ts, k\<lparr>tt := (tt k)(sid \<mapsto> ts)\<rparr>)))"

definition alpha :: int64 where "alpha = 125"
definition beta :: int64 where "beta = 250"
definition c_rto :: int64 where "c_rto = 4"

definition updateTimeoutForDaemon :: "keepalive \<Rightarrow> string \<Rightarrow> int64 \<Rightarrow> int64 \<times> keepalive" where
  "updateTimeoutForDaemon k sid d =
     (let next = d;
          (ts, k1) = timeoutStatsForDaemon k sid;
          ts = ts\<lparr>rttvar := (1000 - beta) * rttvar ts + beta * AbsI64 (srtt ts - next)\<rparr>;
          ts = ts\<lparr>rttvar := DivRound (rttvar ts) 1000\<rparr>;
          ts = ts\<lparr>srtt := (1000 - alpha) * srtt ts + alpha * next\<rparr>;
          ts = ts\<lparr>srtt := DivRound (srtt ts) 1000\<rparr>;
          ts = ts\<lparr>timeout := MinI64 (maxKeepalive k1) (srtt ts + c_rto * rttvar ts)\<rparr>;
          ts = ts\<lparr>timeout := MaxI64 (timeout ts) (i64_div (maxKeepalive k1) 2)\<rparr>
      in (timeout ts, k1\<lparr>tt := (tt k1)(sid \<mapsto> ts)\<rparr>))"

text \<open>A run of \<open>updateTimeoutForDaemon\<close> calls: the timeouts returned, in order, and the
  final tracker.\<close>

fun run_updates :: "keepalive \<Rightarrow> (string \<times> int64) list \<Rightarrow> int64 list \<times> keepalive" where
  "run_updates k [] = ([], k)"
| "run_updates k ((sid, d) # rest) =
     (let (t, k1) = updateTimeoutForDaemon k sid d;
          (ts, k2) = run_updates k1 rest
      in (t # ts, k2))"

text \<open>The recursion of section 4.3, as the spec words it, on the values of one peer.\<close>

definition spec_clamp :: "int64 \<Rightarrow> int64 \<Rightarrow> int64 \<Rightarrow> int64" where
  "spec_clamp x lo hi = MaxI64 (MinI64 hi x) lo"

definition spec_rttvar :: "int64 \<Rightarrow> int64 \<Rightarrow> int64 \<Rightarrow> int64" where
  "spec_rttvar srtt_old rttvar_old \<delta> =
     DivRound ((1000 - 250) * rttvar_old + 250 * AbsI64 (srtt_old - \<delta>)) 1000"

definition spec_srtt :: "int64 \<Rightarrow> int64 \<Rightarrow> int64" where
  "spec_srtt srtt_old \<delta> = DivRound ((1000 - 125) * srtt_old + 125 * \<delta>) 1000"

definition spec_timeout :: "int64 \<Rightarrow> int64 \<Rightarrow> int64 \<Rightarrow> int64 \<Rightarrow> int64" where
  "spec_timeout maxKA srtt_old rttvar_old \<delta> =
     spec_clamp (spec_srtt srtt_old \<delta> + 4 * spec_rttvar srtt_old rttvar_old \<delta>)
       (i64_div maxKA 2) maxKA"

definition in_timeout_range :: "int64 \<Rightarrow> int64 \<Rightarrow> bool" where
  "in_timeout_range maxKA t = (sint (i64_div maxKA 2) \<le> sint t \<and> sint t \<le> sint maxKA)"


definition stats_in_range :: "keepalive \<Rightarrow> bool" where
  "stats_in_range k =
     (\<forall>sid ts. tt k sid = Some ts \<longrightarrow> in_timeout_range (maxKeepalive k) (timeout ts))"


text \<open>Values below \<open>2^53\<close> nanoseconds (some 104 days) keep every product of the update
  inside the \<open>int64\<close> range.\<close>

definition small :: "int64 \<Rightarrow> bool" where
  "small x = (0 \<le> sint x \<and> sint x \<le> 2 ^ 53)"




section \<open>Keepalive trackers: AvgTracker\<close>

record avgTrackerRec =
  count :: int64
  last :: int64
  totalMS :: int64

record AvgTracker =
  rec :: "string \<rightharpoonup> avgTrackerRec"
  factor :: "8 word"

text \<open>Go panics on an integer division by zero; the panic is a value here.\<close>

datatype panic = DivideByZero

definition Millisecond :: int64 where
  "Millisecond = 1000000"

definition avg :: "avgTrackerRec \<Rightarrow> panic + int64" where
  "avg r = (if count r = 0 then Inl DivideByZero else Inr (i64_div (totalMS r) (count r)))"

definition newAvgTracker :: "8 word \<Rightarrow> AvgTracker" where
  "newAvgTracker f = \<lparr>rec = Map.empty, factor = f\<rparr>"

text \<open>\<open>now\<close> is the reading of the monotonic clock that the call takes.\<close>

definition HeardFrom :: "AvgTracker \<Rightarrow> int64 \<Rightarrow> string \<Rightarrow> bool \<Rightarrow> AvgTracker" where
  "HeardFrom a now nid reset =
     (case rec a nid of
        None \<Rightarrow> a\<lparr>rec := (rec a)(nid \<mapsto> \<lparr>count = 0, last = now, totalMS = 0\<rparr>)\<rparr>
      | Some r \<Rightarrow>
          if reset then a\<lparr>rec := (rec a)(nid \<mapsto> \<lparr>count = 0, last = now, totalMS = 0\<rparr>)\<rparr>
          else
            (let t = now;
                 delta = t - last r;
                 r = r\<lparr>last := t\<rparr>;
                 r = r\<lparr>count := count r + 1\<rparr>;
                 r = r\<lparr>totalMS := totalMS r + i64_div delta Millisecond\<rparr>
             in a\<lparr>rec := (rec a)(nid \<mapsto> r)\<rparr>))"

text \<open>
  \<open>TimedOut\<close> returns, next to its result, the records on which it invoked \<open>avg\<close>, so that
  the only division by a variable is visible in the result.
\<close>

definition TimedOut :: "AvgTracker \<Rightarrow> int64 \<Rightarrow> string \<Rightarrow> avgTrackerRec list \<times> (panic + bool)" where
  "TimedOut a now nid =
     (case rec a nid of
        None \<Rightarrow> ([], Inr True)
      | Some r \<Rightarrow>
          if count r = 0 then ([], Inr False)
          else ([r],
            (case avg r of
               Inl p \<Rightarrow> Inl p
             | Inr v \<Rightarrow>
                 Inr (i64_less (ucast (factor a) * v) (i64_div (now - last r) Millisecond)))))"

fun run_HeardFrom :: "AvgTracker \<Rightarrow> (int64 \<times> string \<times> bool) list \<Rightarrow> AvgTracker" where
  "run_HeardFrom a [] = a"
| "run_HeardFrom a ((now, nid, reset) # rest) = run_HeardFrom (HeardFrom a now nid reset) rest"


definition counts_bounded :: "AvgTracker \<Rightarrow> int \<Rightarrow> bool" where
  "counts_bounded a n = (\<forall>nid r. rec a nid = Some r \<longrightarrow> 0 \<le> sint (count r) \<and> sint (count r) \<le> n)"


section \<open>Keepalive: the heartbeat to the primary\<close>

definition kaNumRetries :: nat where "kaNumRetries = 3"
definition kaStopMsg :: string where "kaStopMsg = ''stop''"

text \<open>
  What one call of the \<open>sendKeepalive\<close> argument yields, together with what the surrounding
  code reads from its environment while handling that call: whether \<open>err\<close> is non-nil, the
  answers of \<open>cos.IsRetriableConnErr(err)\<close> and \<open>cos.IsUnreachable(err, status)\<close> (package
  \<open>cos\<close> is not part of the sources at hand, so the two answers are inputs), the elapsed time
  that \<open>mono.Since\<close> measures, and the value of \<open>daemon.stopping\<close>.
\<close>

record attempt_env =
  failed :: bool
  retriable :: bool
  unreachable :: bool
  elapsed :: int64
  stopping :: bool

text \<open>The \<open>select\<close> of the retry loop receives either a tick of the retry ticker (and then
  sends a keepalive) or a signal from the control channel.\<close>

datatype select_event = Tick attempt_env | Sig string

text \<open>One retry, as the loop performed it: the value of \<open>i\<close> after \<open>i++\<close>, the timeout passed
  to \<open>sendKeepalive\<close>, whether the call failed, and the sample passed to
  \<open>updateTimeoutForDaemon\<close>.\<close>

record retry_rec =
  attempt_no :: nat
  used_timeout :: int64
  attempt_failed :: bool
  sample :: int64

text \<open>
  The loop of \<open>register\<close>. The result is \<open>None\<close> when the events run out while the loop is
  still waiting in its \<open>select\<close>. The \<open>debug.AssertNoErr\<close> and the log calls have no effect
  in a production build and are left out, as is the latency statistic.
\<close>

fun register_loop ::
  "keepalive \<Rightarrow> string \<Rightarrow> int64 \<Rightarrow> nat \<Rightarrow> select_event list \<Rightarrow>
   bool option \<times> keepalive \<times> retry_rec list" where
  "register_loop k primaryID tmo i [] = (None, k, [])"
| "register_loop k primaryID tmo i (Sig msg # evs) =
     (if msg = kaStopMsg then (Some True, k, [])
      else register_loop k primaryID tmo i evs)"
| "register_loop k primaryID tmo i (Tick env # evs) =
     (let i = i + 1;
          delta = elapsed env;
          delta = (if retriable env then maxKeepalive k else delta);
          (tmo', k') = updateTimeoutForDaemon k primaryID delta;
          r = \<lparr>attempt_no = i, used_timeout = tmo, attempt_failed = failed env, sample = delta\<rparr>
      in if \<not> failed env then (Some False, k', [r])
         else if i = kaNumRetries then (Some True, k', [r])
         else if unreachable env then
           (let (res, k'', rs) = register_loop k' primaryID tmo' i evs in (res, k'', r # rs))
         else if stopping env then (Some True, k', [r])
         else
           (let (res, k'', rs) = register_loop k' primaryID tmo' i evs in (res, k'', r # rs)))"

definition register ::
  "keepalive \<Rightarrow> bool \<Rightarrow> string \<Rightarrow> select_event list \<Rightarrow>
   bool option \<times> keepalive \<times> retry_rec list" where
  "register k first_failed primaryID evs =
     (let (ts, k) = timeoutStatsForDaemon k primaryID;
          tmo = timeout ts
      in if \<not> first_failed then (Some False, k, [])
         else register_loop k primaryID tmo 0 evs)"

definition ticks :: "select_event list \<Rightarrow> attempt_env list" where
  "ticks evs = concat (map (\<lambda>ev. case ev of Tick env \<Rightarrow> [env] | Sig _ \<Rightarrow> []) evs)"

text \<open>
  A run of the loop is undisturbed when no stop signal arrives on the control channel and no
  retry fails with an error other than unreachable while the daemon is stopping. The leading
  failures are the ticks before the first one whose keepalive succeeds.
\<close>

definition undisturbed :: "select_event list \<Rightarrow> bool" where
  "undisturbed evs =
     list_all (\<lambda>ev. case ev of
                      Sig msg \<Rightarrow> msg \<noteq> kaStopMsg
                    | Tick env \<Rightarrow> \<not> (failed env \<and> \<not> unreachable env \<and> stopping env)) evs"

definition leading_failures :: "select_event list \<Rightarrow> nat" where
  "leading_failures evs = length (takeWhile failed (ticks evs))"

text \<open>
  \<open>targetKeepalive.doKeepalive\<close>: \<open>smap_ok\<close> says that the current map is non-nil and valid.
  Next to \<open>stopped\<close> the result tells whether \<open>onPrimaryFail\<close> was invoked.
\<close>

definition doKeepalive ::
  "keepalive \<Rightarrow> bool \<Rightarrow> bool \<Rightarrow> string \<Rightarrow> select_event list \<Rightarrow>
   bool option \<times> bool \<times> keepalive \<times> retry_rec list" where
  "doKeepalive k smap_ok first_failed primaryID evs =
     (if \<not> smap_ok then (Some False, False, k, [])
      else
        (case register k first_failed primaryID evs of
           (Some True, k', rs) \<Rightarrow> (Some True, True, k', rs)
         | (res, k', rs) \<Rightarrow> (res, False, k', rs)))"

text \<open>A fresh tracker with \<open>maxKeepalive\<close> of six seconds, and the environments of a retry
  that succeeds, of one that fails with an unexpected response after a millisecond, and of one
  that fails at once because the connection is refused.\<close>

definition ka0 :: keepalive where
  "ka0 = \<lparr>maxKeepalive = 6000000000, tt = Map.empty\<rparr>"

text \<open>The same tracker with a stored entry for the peer \<open>p1\<close>.\<close>

definition ka1 :: keepalive where
  "ka1 = \<lparr>maxKeepalive = 6000000000,
           tt = [''p1'' \<mapsto> \<lparr>srtt = 4000000000, rttvar = 200000000, timeout = 4800000000\<rparr>]\<rparr>"

definition env_ok :: attempt_env where
  "env_ok = \<lparr>failed = False, retriable = False, unreachable = False, elapsed = 1000000,
     stopping = False\<rparr>"

definition env_failed :: attempt_env where
  "env_failed = \<lparr>failed = True, retriable = False, unreachable = False, elapsed = 1000000,
     stopping = False\<rparr>"



section \<open>Cluster map\<close>

text \<open>
  Modelled from the spec: package \<open>cluster\<close> (\<open>Snode\<close>, \<open>NodeMap\<close>, \<open>Smap\<close> and their methods)
  is used by the proxy code but is not part of the sources at hand. A node descriptor has an
  id, a role, three network endpoints and a bitset of flags; the cluster map has a version, a
  uuid, the proxies, the targets and the primary. \<open>IsAnySet\<close> tests whether any bit of a mask
  is set; a node is active when neither its Maintenance nor its Decommission flag is set;
  \<open>GetNode\<close> looks an id up among the targets and then among the proxies;
  \<open>GetNodeNotMaint\<close> is \<open>GetNode\<close> restricted to active nodes, so that a node in maintenance
  counts as absent; \<open>CountActiveTargets\<close> counts the active entries of the target map. A Go
  map is a list of key-value pairs with distinct keys; \<open>range\<close> visits the pairs in an order
  that Go leaves open, which is the order of the list here.
\<close>

type_synonym BitFlags = "64 word"

definition SnodeNonElectable :: BitFlags where "SnodeNonElectable = 1"
definition NodeFlagMaint :: BitFlags where "NodeFlagMaint = 2"
definition NodeFlagDecomm :: BitFlags where "NodeFlagDecomm = 4"
definition NodeFlagsMaintDecomm :: BitFlags where
  "NodeFlagsMaintDecomm = NodeFlagMaint OR NodeFlagDecomm"

definition IsAnySet :: "BitFlags \<Rightarrow> BitFlags \<Rightarrow> bool" where
  "IsAnySet f m = (f AND m \<noteq> 0)"

definition SetFlag :: "BitFlags \<Rightarrow> BitFlags \<Rightarrow> BitFlags" where
  "SetFlag f m = f OR m"

datatype DaemonType = Proxy | Target

record Snode =
  DaemonID :: string
  DaeType :: DaemonType
  PublicNet :: string
  IntraControlNet :: string
  IntraDataNet :: string
  Flags :: BitFlags

definition IsProxy :: "Snode \<Rightarrow> bool" where
  "IsProxy si = (DaeType si = Proxy)"

definition IsTarget :: "Snode \<Rightarrow> bool" where
  "IsTarget si = (DaeType si = Target)"

definition Equals :: "Snode \<Rightarrow> Snode \<Rightarrow> bool" where
  "Equals a b =
     (DaemonID a = DaemonID b \<and> DaeType a = DaeType b \<and> PublicNet a = PublicNet b \<and>
      IntraControlNet a = IntraControlNet b \<and> IntraDataNet a = IntraDataNet b)"

type_synonym NodeMap = "(string \<times> Snode) list"

record Smap =
  Tmap :: NodeMap
  Pmap :: NodeMap
  Primary :: "Snode option"
  Version :: int64
  UUID :: string

definition nodes_of :: "NodeMap \<Rightarrow> Snode list" where
  "nodes_of m = map snd m"

definition GetTarget :: "Smap \<Rightarrow> string \<Rightarrow> Snode option" where
  "GetTarget m sid = map_of (Tmap m) sid"

definition GetProxy :: "Smap \<Rightarrow> string \<Rightarrow> Snode option" where
  "GetProxy m sid = map_of (Pmap m) sid"

definition GetNode :: "Smap \<Rightarrow> string \<Rightarrow> Snode option" where
  "GetNode m sid = (case GetTarget m sid of Some si \<Rightarrow> Some si | None \<Rightarrow> GetProxy m sid)"

definition GetNodeNotMaint :: "Smap \<Rightarrow> string \<Rightarrow> Snode option" where
  "GetNodeNotMaint m sid =
     (case GetNode m sid of
        Some si \<Rightarrow> if IsAnySet (Flags si) NodeFlagsMaintDecomm then None else Some si
      | None \<Rightarrow> None)"

definition CountActiveTargets :: "Smap \<Rightarrow> nat" where
  "CountActiveTargets m =
     length (filter (\<lambda>si. \<not> IsAnySet (Flags si) NodeFlagsMaintDecomm) (nodes_of (Tmap m)))"


section \<open>Rebalance: must it run\<close>

text \<open>The fields of \<open>smapModifier\<close> that \<open>mustRunRebalance\<close> reads and writes: the previous
  map \<open>ctx.smap\<close> and the cached answer \<open>ctx._mustReb\<close>.\<close>

record smapModifier =
  smap :: Smap
  mustReb :: bool

text \<open>
  Each of the two loops of \<open>mustRunRebalance\<close> ranges over the targets of one map and
  looks every active one up in the other map; it leaves the loop, by \<open>goto ret\<close>, at the
  first one that the other map does not hold as an active node.
\<close>

fun scan_targets :: "Smap \<Rightarrow> Snode list \<Rightarrow> bool" where
  "scan_targets other [] = False"
| "scan_targets other (si # rest) =
     (if IsProxy si \<or> IsAnySet (Flags si) NodeFlagsMaintDecomm then scan_targets other rest
      else if GetNodeNotMaint other (DaemonID si) = None then True
      else scan_targets other rest)"

text \<open>\<open>rebEnabled\<close> is \<open>cmn.GCO.Get().Rebalance.Enabled\<close>, read from the global config.\<close>

definition mustRunRebalance ::
  "bool \<Rightarrow> 'a smapModifier_scheme \<Rightarrow> Smap \<Rightarrow> bool \<times> 'a smapModifier_scheme" where
  "mustRunRebalance rebEnabled ctx cur =
     (let prev = smap ctx in
      if mustReb ctx then (True, ctx)
      else if \<not> rebEnabled then (False, ctx)
      else
        (let ctx = (if scan_targets prev (nodes_of (Tmap cur)) then ctx\<lparr>mustReb := True\<rparr>
                    else if scan_targets cur (nodes_of (Tmap prev)) then ctx\<lparr>mustReb := True\<rparr>
                    else ctx);
             ctx = (if mustReb ctx
                    then ctx\<lparr>mustReb := (CountActiveTargets prev \<noteq> 0 \<and> CountActiveTargets cur \<noteq> 0)\<rparr>
                    else ctx)
         in (mustReb ctx, ctx)))"

text \<open>The predicate of section 4.2, as the spec words it.\<close>

definition active :: "Snode \<Rightarrow> bool" where
  "active si = (\<not> IsAnySet (Flags si) NodeFlagMaint \<and> \<not> IsAnySet (Flags si) NodeFlagDecomm)"

definition absent_or_maintenance :: "Smap \<Rightarrow> string \<Rightarrow> bool" where
  "absent_or_maintenance m sid =
     (case GetNode m sid of None \<Rightarrow> True | Some si \<Rightarrow> \<not> active si)"

definition has_active_target :: "Smap \<Rightarrow> bool" where
  "has_active_target m = (\<exists>si \<in> set (nodes_of (Tmap m)). active si)"

definition spec_mustRunRebalance :: "Smap \<Rightarrow> Smap \<Rightarrow> bool" where
  "spec_mustRunRebalance prev cur =
     (((\<exists>si \<in> set (nodes_of (Tmap cur)). active si \<and> absent_or_maintenance prev (DaemonID si)) \<or>
       (\<exists>si \<in> set (nodes_of (Tmap prev)). active si \<and> absent_or_maintenance cur (DaemonID si))) \<and>
      has_active_target prev \<and> has_active_target cur)"

definition targets_only :: "Smap \<Rightarrow> bool" where
  "targets_only m = (\<forall>si \<in> set (nodes_of (Tmap m)). IsTarget si)"


text \<open>Concrete nodes and maps, for the instances at which the theorems are evaluated.\<close>

definition target_node :: "string \<Rightarrow> BitFlags \<Rightarrow> Snode" where
  "target_node sid f =
     \<lparr>DaemonID = sid, DaeType = Target, PublicNet = ''http://'' @ sid @ '':8081'',
      IntraControlNet = ''http://'' @ sid @ '':9081'', IntraDataNet = ''http://'' @ sid @ '':10081'',
      Flags = f\<rparr>"

definition proxy_node :: "string \<Rightarrow> BitFlags \<Rightarrow> Snode" where
  "proxy_node sid f =
     \<lparr>DaemonID = sid, DaeType = Proxy, PublicNet = ''http://'' @ sid @ '':8080'',
      IntraControlNet = ''http://'' @ sid @ '':9080'', IntraDataNet = ''http://'' @ sid @ '':10080'',
      Flags = f\<rparr>"

definition smap_of :: "Snode list \<Rightarrow> Snode list \<Rightarrow> int64 \<Rightarrow> Smap" where
  "smap_of ts ps v =
     \<lparr>Tmap = map (\<lambda>si. (DaemonID si, si)) ts, Pmap = map (\<lambda>si. (DaemonID si, si)) ps,
      Primary = (case ps of [] \<Rightarrow> None | p # _ \<Rightarrow> Some p), Version = v, UUID = ''cluster-uuid''\<rparr>"


section \<open>The primary proxy: state, requests, responses\<close>

text \<open>
  The state of a proxy that the cluster handlers read and write. Calls whose code is not part
  of the sources at hand and that only produce effects (log lines, metasync, the registry of
  notification listeners, the keepalive tracker) are recorded in the lists \<open>p_log\<close>,
  \<open>p_synced\<close>, \<open>p_nls\<close> and \<open>p_heard\<close>.
\<close>

record rebMD =
  rmd_Version :: int64
  TargetIDs :: "string list"

datatype revs = RevSmap | RevBMD | RevConfig | RevRMD | RevTokens | RevEtlMD

record proxyrunner =
  p_si :: Snode
  p_smap :: Smap
  p_rmd :: rebMD
  rmd_rebalance :: bool
  rmd_startup :: bool
  inPrimaryTransition :: bool
  clusterStarted :: bool
  nodeStarted :: bool
  reg_pool :: "Snode list"
  metasyncer_primary :: bool
  p_log :: "string list"
  p_synced :: "revs list list"
  p_nls :: "int64 list"
  p_heard :: "string list"

datatype response =
    RespNone
  | RespErr string
  | RespForwarded
  | RespJoinResult string "int64 option"
  | RespClusterMeta



section \<open>Join and keepalive requests\<close>

datatype api_op = AdminJoin | SelfJoin | Keepalive | OtherOp

text \<open>\<open>detectDaemonDuplicate\<close> is not part of the sources at hand: its result, an error or
  the answer whether the node at the old address is a live duplicate, is an input.\<close>

datatype probe_result = ProbeErr | ProbeResult bool

text \<open>
  What a request carries and what the calls that the handler makes outside the sources at hand
  answer: the path item, whether the request was forwarded to the primary, the descriptor read
  from the body (\<open>None\<close> when \<open>ReadJSON\<close> fails), the answer of \<open>getDaemonInfo\<close>, the checks
  \<open>nsi.Validate\<close>, \<open>bmd.validateUUID\<close>, \<open>validateHostname\<close>, \<open>smap.validateUUID\<close>,
  \<open>smap.IsDuplicate\<close> and \<open>smap.validate\<close>, the parsed non-electable parameter, the outcome of
  the admin-join handshake and of \<open>cluMeta\<close>, the probe of the old node, the
  rebalance-interrupted flag of the request, and the config switch of rebalance.
\<close>

record join_req =
  rest_item :: "api_op option"
  forwarded :: bool
  req_SI :: "Snode option"
  daemonInfo :: "Snode option"
  si_valid :: bool
  bmd_uuid_ok :: bool
  nonElectable_param :: bool
  hostname_ok :: bool
  handshake_ok :: bool
  probe :: probe_result
  smap_uuid_ok :: bool
  is_duplicate_err :: bool
  smap_valid :: bool
  RebInterrupted :: bool
  cluMeta_ok :: bool
  rebalance_enabled :: bool
















text \<open>The descriptor as \<open>httpclupost\<close> passes it on: with the flags of the entry that the map
  holds for its id, and with the non-electable flag when the request of a proxy asks for it.\<close>

definition with_flags :: "Smap \<Rightarrow> join_req \<Rightarrow> Snode \<Rightarrow> Snode" where
  "with_flags m req nsi =
     (let n = (case GetNode m (DaemonID nsi) of
                 Some osi \<Rightarrow> nsi\<lparr>Flags := Flags osi\<rparr> | None \<Rightarrow> nsi)
      in if IsProxy nsi \<and> nonElectable_param req
         then n\<lparr>Flags := SetFlag (Flags n) SnodeNonElectable\<rparr> else n)"


section \<open>Administrative change of the primary\<close>

text \<open>
  Modelled from the spec: \<open>Smap.PresentInMaint\<close> is not part of the sources at hand; it tells
  whether the node is in the map with its Maintenance or Decommission flag set.
\<close>

definition PresentInMaint :: "Smap \<Rightarrow> Snode \<Rightarrow> bool" where
  "PresentInMaint m si =
     (case GetNode m (DaemonID si) of
        Some n \<Rightarrow> IsAnySet (Flags n) NodeFlagsMaintDecomm
      | None \<Rightarrow> False)"

text \<open>One result of a broadcast: the node that answered and whether its call failed.\<close>

record callResult =
  res_si :: string
  res_err :: bool

text \<open>
  What \<open>cluSetPrimary\<close> does beyond its response, in order: the two broadcasts, the stores
  to \<open>inPrimaryTransition\<close>, the modification of the map, \<open>becomeNonPrimary\<close> of the
  metasyncer, the error log of the commit phase and the exit of the process.
\<close>

datatype effect =
    BcastPrepare
  | BcastCommit
  | StoreTransition bool
  | ModifySmap
  | BecomeNonPrimary
  | LogCommitFailure string
  | ExitProcess

text \<open>The request: the proxy id of the path (\<open>None\<close> when the path is malformed), whether the
  request was forwarded to the primary, whether \<open>cluMeta\<close> succeeds, and the results that the
  nodes return to the prepare and to the commit broadcast.\<close>

record setprimary_req =
  sp_item :: "string option"
  sp_forwarded :: bool
  sp_cluMeta_ok :: bool
  prepare_results :: "callResult list"
  commit_results :: "callResult list"

text \<open>The loop over the results of the prepare phase returns at the first failed result
  (\<open>find\<close>). The commit loop: a failure of the new primary ends the process, a failure of another
  node is logged.\<close>

fun commit_loop :: "string \<Rightarrow> callResult list \<Rightarrow> effect list" where
  "commit_loop proxyid [] = []"
| "commit_loop proxyid (res # rest) =
     (if \<not> res_err res then commit_loop proxyid rest
      else if res_si res = proxyid then [ExitProcess]
      else LogCommitFailure (res_si res) # commit_loop proxyid rest)"

definition cluSetPrimary ::
  "proxyrunner \<Rightarrow> setprimary_req \<Rightarrow> proxyrunner \<times> response \<times> effect list" where
  "cluSetPrimary p req =
     (case sp_item req of
        None \<Rightarrow> (p, RespErr ''invalid path'', [])
      | Some proxyid \<Rightarrow>
          if sp_forwarded req then (p, RespForwarded, [])
          else
            (let m = p_smap p in
             case GetProxy m proxyid of
               None \<Rightarrow> (p, RespErr ''new primary proxy is not present in the map'', [])
             | Some psi \<Rightarrow>
                 if proxyid = DaemonID (p_si p) then (p, RespNone, [])
                 else if PresentInMaint m psi
                   then (p, RespErr ''cannot set new primary - under maintenance'', [])
                 else if \<not> clusterStarted p \<or> rmd_startup p
                   then (p, RespErr ''primary is not ready yet'', [])
                 else if \<not> sp_cluMeta_ok req then (p, RespErr ''cluster meta'', [])
                 else
                   (case find res_err (prepare_results req) of
                      Some res \<Rightarrow>
                        (p, RespErr ''node failed to set primary in the prepare phase'',
                         [BcastPrepare])
                    | None \<Rightarrow>
                        (let p = p\<lparr>inPrimaryTransition := True\<rparr>;
                             p = p\<lparr>p_smap := (p_smap p)\<lparr>Primary := Some psi\<rparr>,
                                   metasyncer_primary := False\<rparr>;
                             effs = [BcastPrepare, StoreTransition True, ModifySmap,
                                     BecomeNonPrimary, BcastCommit] @
                                    commit_loop proxyid (commit_results req)
                         in if ExitProcess \<in> set effs then (p, RespNone, effs)
                            else (p\<lparr>inPrimaryTransition := False\<rparr>, RespNone,
                                  effs @ [StoreTransition False])))))"


text \<open>A primary \<open>p1\<close> of a started cluster with the proxies \<open>p1\<close>, \<open>p2\<close>, \<open>p3\<close> and the targets
  \<open>t1\<close>, \<open>t2\<close>, at version 10 of the map.\<close>

definition proxy0 :: proxyrunner where
  "proxy0 =
     \<lparr>p_si = proxy_node ''p1'' 0,
      p_smap = smap_of [target_node ''t1'' 0, target_node ''t2'' 0]
                 [proxy_node ''p1'' 0, proxy_node ''p2'' 0, proxy_node ''p3'' 0] 10,
      p_rmd = \<lparr>rmd_Version = 0, TargetIDs = []\<rparr>,
      rmd_rebalance = False, rmd_startup = False, inPrimaryTransition = False,
      clusterStarted = True, nodeStarted = True, reg_pool = [], metasyncer_primary = True,
      p_log = [], p_synced = [], p_nls = [], p_heard = []\<rparr>"

definition result_ok :: "string \<Rightarrow> callResult" where
  "result_ok sid = \<lparr>res_si = sid, res_err = False\<rparr>"

definition result_failed :: "string \<Rightarrow> callResult" where
  "result_failed sid = \<lparr>res_si = sid, res_err = True\<rparr>"



section \<open>Notification listeners\<close>

text \<open>
  Modelled from the spec: the registry \<open>notifs\<close> of the primary, its \<open>handler\<close> and the
  listeners of package \<open>nl\<close> are not part of the sources at hand; only their tests are. A
  listener holds its uuid, the notifiers (the target ids at its creation), the last stats of
  each notifier, the finished notifiers, the aborted flag, the aggregated error and the
  completion callback, of which the number of invocations is kept; \<open>Finished()\<close> is true once
  the listener has completed. The registry holds the active listeners \<open>nls\<close> and the
  archived ones \<open>fin\<close>. On a notification: an unknown uuid is answered with 200 and dropped;
  a progress notification merges the stats of the notifier; a finished notification merges the
  stats, adds the notifier to the finished ones and sets the aborted flag when the payload
  says so; when all notifiers have finished or the listener is aborted, the listener moves
  from \<open>nls\<close> to \<open>fin\<close> and the callback fires. The invariant that the finished notifiers are
  notifiers makes a notification from any other node a rejected one. The tests expect a
  finished notification that arrives after an abort to be answered with 200 and counted, so
  a uuid is known as long as the listener is active or archived.
\<close>

record NL =
  nl_uuid :: string
  nl_notifiers :: "string list"
  nl_stats :: "(string \<times> nat) list"
  nl_finished :: "string list"
  nl_aborted :: bool
  nl_err :: "string option"
  nl_done :: bool
  nl_callbacks :: nat

record notifs =
  nls :: "string \<rightharpoonup> NL"
  fin :: "string \<rightharpoonup> NL"

record NotifMsg =
  m_uuid :: string
  m_sender :: string
  m_finished :: bool
  m_aborted :: bool
  m_err :: "string option"
  m_stats :: nat

datatype notif_response = Dropped200 | OK200 | Rejected

definition newNL :: "string \<Rightarrow> string list \<Rightarrow> NL" where
  "newNL uuid targets =
     \<lparr>nl_uuid = uuid, nl_notifiers = targets, nl_stats = [], nl_finished = [],
      nl_aborted = False, nl_err = None, nl_done = False, nl_callbacks = 0\<rparr>"

definition add_nl :: "notifs \<Rightarrow> NL \<Rightarrow> notifs" where
  "add_nl n l = n\<lparr>nls := (nls n)(nl_uuid l \<mapsto> l)\<rparr>"

definition entry :: "notifs \<Rightarrow> string \<Rightarrow> NL option" where
  "entry n uuid = (case nls n uuid of Some l \<Rightarrow> Some l | None \<Rightarrow> fin n uuid)"

definition Finished :: "NL \<Rightarrow> bool" where
  "Finished l = nl_done l"

definition FinCount :: "NL \<Rightarrow> nat" where
  "FinCount l = length (nl_finished l)"

definition merge_stats :: "NL \<Rightarrow> NotifMsg \<Rightarrow> NL" where
  "merge_stats l msg =
     l\<lparr>nl_stats := (m_sender msg, m_stats msg) #
                     filter (\<lambda>kv. fst kv \<noteq> m_sender msg) (nl_stats l)\<rparr>"

definition markFinished :: "NL \<Rightarrow> NotifMsg \<Rightarrow> NL" where
  "markFinished l msg =
     (let l = l\<lparr>nl_finished := List.insert (m_sender msg) (nl_finished l)\<rparr>;
          l = (if m_aborted msg
               then l\<lparr>nl_aborted := True,
                      nl_err := (case m_err msg of Some e \<Rightarrow> Some e | None \<Rightarrow> Some ''aborted'')\<rparr>
               else (case m_err msg of Some e \<Rightarrow> l\<lparr>nl_err := Some e\<rparr> | None \<Rightarrow> l))
      in l)"

definition all_finished :: "NL \<Rightarrow> bool" where
  "all_finished l = (set (nl_finished l) = set (nl_notifiers l))"

definition store_nl :: "notifs \<Rightarrow> string \<Rightarrow> NL \<Rightarrow> notifs" where
  "store_nl n uuid l =
     (if nls n uuid \<noteq> None then n\<lparr>nls := (nls n)(uuid \<mapsto> l)\<rparr>
      else n\<lparr>fin := (fin n)(uuid \<mapsto> l)\<rparr>)"

text \<open>The completion: only a listener that is still active moves to \<open>fin\<close>, and only then
  the callback fires.\<close>

definition done_nl :: "notifs \<Rightarrow> string \<Rightarrow> NL \<Rightarrow> notifs" where
  "done_nl n uuid l =
     (if nls n uuid \<noteq> None
      then n\<lparr>nls := (nls n)(uuid := None),
             fin := (fin n)(uuid \<mapsto> l\<lparr>nl_done := True, nl_callbacks := nl_callbacks l + 1\<rparr>)\<rparr>
      else store_nl n uuid l)"

definition handler :: "notifs \<Rightarrow> NotifMsg \<Rightarrow> notifs \<times> notif_response" where
  "handler n msg =
     (case entry n (m_uuid msg) of
        None \<Rightarrow> (n, Dropped200)
      | Some l \<Rightarrow>
          if m_sender msg \<notin> set (nl_notifiers l) then (n, Rejected)
          else if \<not> m_finished msg
            then (store_nl n (m_uuid msg) (merge_stats l msg), OK200)
          else
            (let l = markFinished (merge_stats l msg) msg in
             if all_finished l \<or> nl_aborted l then (done_nl n (m_uuid msg) l, OK200)
             else (store_nl n (m_uuid msg) l, OK200)))"

fun run_handler :: "notifs \<Rightarrow> NotifMsg list \<Rightarrow> notifs" where
  "run_handler n [] = n"
| "run_handler n (msg # msgs) = run_handler (fst (handler n msg)) msgs"

text \<open>For a listener \<open>uuid\<close> with notifiers \<open>N\<close>: the notifications that count as a finished
  one of a notifier, the notifiers that have delivered one, and whether one carried an abort.\<close>

definition relevant :: "string \<Rightarrow> string list \<Rightarrow> NotifMsg \<Rightarrow> bool" where
  "relevant uuid N msg = (m_uuid msg = uuid \<and> m_sender msg \<in> set N \<and> m_finished msg)"

definition delivered :: "string \<Rightarrow> string list \<Rightarrow> NotifMsg list \<Rightarrow> string set" where
  "delivered uuid N msgs = m_sender ` {msg \<in> set msgs. relevant uuid N msg}"

definition abort_seen :: "string \<Rightarrow> string list \<Rightarrow> NotifMsg list \<Rightarrow> bool" where
  "abort_seen uuid N msgs = (\<exists>msg \<in> set msgs. relevant uuid N msg \<and> m_aborted msg)"

text \<open>The state of the listener \<open>uuid\<close> in the registry after the notifiers \<open>D\<close> have
  finished and with the aborted flag \<open>ab\<close>: archived with one invocation of the callback when
  it is complete, active with none otherwise.\<close>

definition nl_state :: "string \<Rightarrow> string list \<Rightarrow> notifs \<Rightarrow> string set \<Rightarrow> bool \<Rightarrow> bool" where
  "nl_state uuid N n D ab =
     (\<exists>l. entry n uuid = Some l \<and> nl_notifiers l = N \<and>
          set (nl_finished l) = D \<and> nl_aborted l = ab \<and>
          (if ab \<or> D = set N
           then nls n uuid = None \<and> fin n uuid = Some l \<and> nl_callbacks l = 1 \<and> Finished l
           else nls n uuid = Some l \<and> nl_callbacks l = 0 \<and> \<not> Finished l))"

text \<open>The registry and the notifications of the tests: a listener \<open>xact\<close> for the targets
  \<open>target1\<close> and \<open>target2\<close>.\<close>

definition notifs0 :: notifs where
  "notifs0 = add_nl \<lparr>nls = Map.empty, fin = Map.empty\<rparr> (newNL ''xact'' [''target1'', ''target2''])"

definition notif_finished :: "string \<Rightarrow> NotifMsg" where
  "notif_finished sender =
     \<lparr>m_uuid = ''xact'', m_sender = sender, m_finished = True, m_aborted = False,
      m_err = None, m_stats = 0\<rparr>"

definition notif_progress :: "string \<Rightarrow> NotifMsg" where
  "notif_progress sender =
     \<lparr>m_uuid = ''xact'', m_sender = sender, m_finished = False, m_aborted = False,
      m_err = None, m_stats = 0\<rparr>"

definition notif_aborted :: "string \<Rightarrow> NotifMsg" where
  "notif_aborted sender =
     \<lparr>m_uuid = ''xact'', m_sender = sender, m_finished = True, m_aborted = True,
      m_err = None, m_stats = 0\<rparr>"


section \<open>Properties of the timeout statistics\<close>

lemma updateTimeoutForDaemon_closed_form:
  "updateTimeoutForDaemon k sid \<delta> =
     (let ts0 = fst (timeoutStatsForDaemon k sid);
          ts1 = \<lparr>srtt = spec_srtt (srtt ts0) \<delta>,
                 rttvar = spec_rttvar (srtt ts0) (rttvar ts0) \<delta>,
                 timeout = spec_timeout (maxKeepalive k) (srtt ts0) (rttvar ts0) \<delta>\<rparr>
      in (timeout ts1, k\<lparr>tt := (tt k)(sid \<mapsto> ts1)\<rparr>))"
proof (cases "tt k sid")
  case None
  then show ?thesis
    by (simp add: updateTimeoutForDaemon_def timeoutStatsForDaemon_def Let_def spec_srtt_def
        spec_rttvar_def spec_timeout_def spec_clamp_def alpha_def beta_def c_rto_def)
next
  case (Some ts)
  then show ?thesis
    by (cases ts)
      (simp add: updateTimeoutForDaemon_def timeoutStatsForDaemon_def Let_def spec_srtt_def
        spec_rttvar_def spec_timeout_def spec_clamp_def alpha_def beta_def c_rto_def)
qed

lemma sint_i64_div_2:
  assumes "0 \<le> sint (m::int64)"
  shows "sint (i64_div m 2) = sint m div 2"
proof -
  have lt: "sint m < 2 ^ 63" using sint_lt [of m] by simp
  have "sint m sdiv 2 = sint m div 2"
    using assms by (simp add: signed_divide_int_def sgn_if)
  moreover have "- (2 ^ 63) \<le> sint m div 2" "sint m div 2 < 2 ^ 63"
    using assms lt by auto
  ultimately show ?thesis
    by (simp add: i64_div_def sint_sbintrunc' signed_take_bit_int_eq_self)
qed

lemma clamp_in_range:
  assumes "0 \<le> sint (m::int64)"
  shows "in_timeout_range m (MaxI64 (MinI64 m x) (i64_div m 2))"
  using assms sint_i64_div_2 [OF assms]
  by (auto simp: in_timeout_range_def MaxI64_def MinI64_def i64_less_def)

lemma maxKeepalive_timeoutStatsForDaemon:
  "maxKeepalive (snd (timeoutStatsForDaemon k sid)) = maxKeepalive k"
  by (simp add: timeoutStatsForDaemon_def Let_def split: option.splits)

lemma updateTimeoutForDaemon_unfold:
  "updateTimeoutForDaemon k sid d =
     (let ts0 = fst (timeoutStatsForDaemon k sid);
          t = MaxI64 (MinI64 (maxKeepalive k)
                (spec_srtt (srtt ts0) d + 4 * spec_rttvar (srtt ts0) (rttvar ts0) d))
                (i64_div (maxKeepalive k) 2)
      in (t, k\<lparr>tt := (tt k)(sid \<mapsto>
              \<lparr>srtt = spec_srtt (srtt ts0) d,
               rttvar = spec_rttvar (srtt ts0) (rttvar ts0) d, timeout = t\<rparr>)\<rparr>))"
  by (simp add: updateTimeoutForDaemon_closed_form Let_def spec_timeout_def spec_clamp_def)

lemma maxKeepalive_updateTimeoutForDaemon:
  "maxKeepalive (snd (updateTimeoutForDaemon k sid d)) = maxKeepalive k"
  by (simp add: updateTimeoutForDaemon_unfold Let_def)

lemma updateTimeoutForDaemon_in_range:
  "0 \<le> sint (maxKeepalive k) \<Longrightarrow>
   in_timeout_range (maxKeepalive k) (fst (updateTimeoutForDaemon k sid d))"
  by (simp add: updateTimeoutForDaemon_unfold Let_def clamp_in_range)

lemma updateTimeoutForDaemon_keeps_range:
  "0 \<le> sint (maxKeepalive k) \<Longrightarrow> stats_in_range k \<Longrightarrow>
   stats_in_range (snd (updateTimeoutForDaemon k sid d))"
  by (simp add: updateTimeoutForDaemon_unfold Let_def stats_in_range_def clamp_in_range)

lemma maxKeepalive_in_range:
  "0 \<le> sint m \<Longrightarrow> in_timeout_range m m"
  using sint_i64_div_2 [of m] by (simp add: in_timeout_range_def)

lemma timeoutStatsForDaemon_in_range:
  "0 \<le> sint (maxKeepalive k) \<Longrightarrow> stats_in_range k \<Longrightarrow>
   in_timeout_range (maxKeepalive k) (timeout (fst (timeoutStatsForDaemon k sid)))"
  by (auto simp: timeoutStatsForDaemon_def Let_def stats_in_range_def maxKeepalive_in_range
      split: option.splits)

lemma run_updates_invariant:
  "0 \<le> sint (maxKeepalive k) \<Longrightarrow> stats_in_range k \<Longrightarrow>
   maxKeepalive (snd (run_updates k ops)) = maxKeepalive k \<and>
   stats_in_range (snd (run_updates k ops)) \<and>
   (\<forall>t \<in> set (fst (run_updates k ops)). in_timeout_range (maxKeepalive k) t)"
proof (induction ops arbitrary: k)
  case Nil
  then show ?case by simp
next
  case (Cons op ops)
  obtain sid d where op: "op = (sid, d)" by (cases op)
  let ?k1 = "snd (updateTimeoutForDaemon k sid d)"
  have m: "maxKeepalive ?k1 = maxKeepalive k"
    by (rule maxKeepalive_updateTimeoutForDaemon)
  have inv: "stats_in_range ?k1"
    using Cons.prems by (rule updateTimeoutForDaemon_keeps_range)
  have hd_ok: "in_timeout_range (maxKeepalive k) (fst (updateTimeoutForDaemon k sid d))"
    using Cons.prems(1) by (rule updateTimeoutForDaemon_in_range)
  have IH: "maxKeepalive (snd (run_updates ?k1 ops)) = maxKeepalive k \<and>
      stats_in_range (snd (run_updates ?k1 ops)) \<and>
      (\<forall>t \<in> set (fst (run_updates ?k1 ops)). in_timeout_range (maxKeepalive k) t)"
    using Cons.IH [of ?k1] Cons.prems(1) inv m by simp
  show ?case
    using IH hd_ok by (simp add: op split_beta Let_def)
qed


section \<open>The int64 arithmetic of the timeout update, read as integers\<close>

lemma sint_in_range:
  "- (2 ^ 63) \<le> x \<Longrightarrow> x < 2 ^ 63 \<Longrightarrow> sint (word_of_int x :: int64) = x"
  by (simp add: sint_sbintrunc' signed_take_bit_int_eq_self)

lemma sint_add_no_overflow:
  fixes a b :: int64
  assumes "- (2 ^ 63) \<le> sint a + sint b" and "sint a + sint b < 2 ^ 63"
  shows "sint (a + b) = sint a + sint b"
  using assms by (simp add: sint_word_ariths signed_take_bit_int_eq_self)

lemma sint_diff_no_overflow:
  fixes a b :: int64
  assumes "- (2 ^ 63) \<le> sint a - sint b" and "sint a - sint b < 2 ^ 63"
  shows "sint (a - b) = sint a - sint b"
  using assms by (simp add: sint_word_ariths signed_take_bit_int_eq_self)

lemma sint_mult_no_overflow:
  fixes a b :: int64
  assumes "- (2 ^ 63) \<le> sint a * sint b" and "sint a * sint b < 2 ^ 63"
  shows "sint (a * b) = sint a * sint b"
  using assms by (simp add: sint_word_ariths signed_take_bit_int_eq_self)

lemma sint_AbsI64:
  fixes a :: int64
  assumes "- (2 ^ 63) < sint a"
  shows "sint (AbsI64 a) = \<bar>sint a\<bar>"
proof (cases "sint a < 0")
  case True
  have "sint a < 2 ^ 63" using sint_lt [of a] by simp
  then have "sint (- a) = - sint a"
    using assms by (simp add: sint_word_ariths signed_take_bit_int_eq_self)
  then show ?thesis using True by (simp add: AbsI64_def i64_less_def)
next
  case False
  then show ?thesis by (simp add: AbsI64_def i64_less_def)
qed

lemma sint_i64_div_nonneg:
  fixes a b :: int64
  assumes "0 \<le> sint a" and "0 < sint b"
  shows "sint (i64_div a b) = sint a div sint b"
proof -
  have eq: "sint a sdiv sint b = sint a div sint b"
    using assms by (simp add: signed_divide_int_def sgn_if)
  have "sint a < 2 ^ 63" using sint_lt [of a] by simp
  moreover have "sint a div sint b \<le> sint a"
    using assms zdiv_mono2 [of "sint a" 1 "sint b"] by simp
  moreover have "0 \<le> sint a div sint b"
    using assms by (simp add: pos_imp_zdiv_nonneg_iff)
  ultimately show ?thesis
    by (simp add: i64_div_def eq sint_in_range)
qed

lemma sint_DivRound_1000:
  fixes a :: int64
  assumes "0 \<le> sint a" and "sint a + 500 < 2 ^ 63"
  shows "sint (DivRound a 1000) = (sint a + 500) div 1000"
proof -
  have h: "i64_div 1000 2 = (500 :: int64)"
    by (simp add: i64_div_def signed_divide_int_def)
  have s: "sint (a + 500) = sint a + 500"
    using assms by (intro sint_add_no_overflow [of a 500, simplified]) simp_all
  have "sint (i64_div (a + 500) 1000) = sint (a + 500) div sint (1000 :: int64)"
    using assms s by (intro sint_i64_div_nonneg) simp_all
  then show ?thesis by (simp add: DivRound_def h s)
qed

lemma sint_spec_rttvar:
  assumes "small s" and "small v" and "small d"
  shows "sint (spec_rttvar s v d) = (750 * sint v + 250 * \<bar>sint s - sint d\<bar> + 500) div 1000"
proof -
  define x where "x = \<bar>sint s - sint d\<bar>"
  have b: "0 \<le> sint s" "sint s \<le> 2 ^ 53" "0 \<le> sint v" "sint v \<le> 2 ^ 53"
    "0 \<le> sint d" "sint d \<le> 2 ^ 53"
    using assms by (simp_all add: small_def)
  have x: "0 \<le> x" "x \<le> 2 ^ 53"
    using b by (simp_all add: x_def)
  have sub: "sint (s - d) = sint s - sint d"
    using b by (intro sint_diff_no_overflow) simp_all
  have ab: "sint (AbsI64 (s - d)) = x"
    using b by (simp add: sint_AbsI64 sub x_def)
  have "sint (750 * v) = sint (750 :: int64) * sint v"
    using b by (intro sint_mult_no_overflow) simp_all
  then have m1: "sint (750 * v) = 750 * sint v" by simp
  have "sint (250 * AbsI64 (s - d)) = sint (250 :: int64) * sint (AbsI64 (s - d))"
    using x by (intro sint_mult_no_overflow) (simp_all add: ab)
  then have m2: "sint (250 * AbsI64 (s - d)) = 250 * x"
    by (simp add: ab)
  have sum: "sint (750 * v + 250 * AbsI64 (s - d)) = 750 * sint v + 250 * x"
    using b x by (simp add: sint_add_no_overflow m1 m2)
  have "sint (DivRound (750 * v + 250 * AbsI64 (s - d)) 1000) =
      (sint (750 * v + 250 * AbsI64 (s - d)) + 500) div 1000"
    using b x by (intro sint_DivRound_1000) (simp_all add: sum)
  then show ?thesis by (simp add: spec_rttvar_def sum x_def)
qed

lemma sint_spec_srtt:
  assumes "small s" and "small d"
  shows "sint (spec_srtt s d) = (875 * sint s + 125 * sint d + 500) div 1000"
proof -
  have b: "0 \<le> sint s" "sint s \<le> 2 ^ 53" "0 \<le> sint d" "sint d \<le> 2 ^ 53"
    using assms by (simp_all add: small_def)
  have "sint (875 * s) = sint (875 :: int64) * sint s"
    using b by (intro sint_mult_no_overflow) simp_all
  then have m1: "sint (875 * s) = 875 * sint s" by simp
  have "sint (125 * d) = sint (125 :: int64) * sint d"
    using b by (intro sint_mult_no_overflow) simp_all
  then have m2: "sint (125 * d) = 125 * sint d" by simp
  have sum: "sint (875 * s + 125 * d) = 875 * sint s + 125 * sint d"
    using b by (simp add: sint_add_no_overflow m1 m2)
  have "sint (DivRound (875 * s + 125 * d) 1000) = (sint (875 * s + 125 * d) + 500) div 1000"
    using b by (intro sint_DivRound_1000) (simp_all add: sum)
  then show ?thesis by (simp add: spec_srtt_def sum)
qed








lemma small_spec_srtt:
  assumes "small s" and "small d"
  shows "small (spec_srtt s d)"
  using assms unfolding small_def sint_spec_srtt [OF assms]
  by (auto simp: pos_imp_zdiv_nonneg_iff intro: zdiv_mono1 [of _ "1000 * 2 ^ 53 + 500" 1000, simplified])


lemma small_spec_rttvar:
  assumes "small s" and "small v" and "small d"
  shows "small (spec_rttvar s v d)"
proof -
  have b: "0 \<le> sint s" "sint s \<le> 2 ^ 53" "0 \<le> sint v" "sint v \<le> 2 ^ 53"
    "0 \<le> sint d" "sint d \<le> 2 ^ 53"
    using assms by (simp_all add: small_def)
  define x where "x = \<bar>sint s - sint d\<bar>"
  have x: "0 \<le> x" "x \<le> 2 ^ 53"
    using b by (simp_all add: x_def)
  have "750 * sint v + 250 * x + 500 \<le> 1000 * 2 ^ 53 + 500"
    using b x by simp
  then have "750 * sint v + 250 * \<bar>sint s - sint d\<bar> + 500 \<le> 1000 * 2 ^ 53 + 500"
    by (simp only: x_def)
  then have "(750 * sint v + 250 * \<bar>sint s - sint d\<bar> + 500) div 1000
      \<le> (1000 * 2 ^ 53 + 500) div 1000"
    by (rule zdiv_mono1) simp
  moreover have "0 \<le> (750 * sint v + 250 * \<bar>sint s - sint d\<bar> + 500) div 1000"
    using b by (simp add: pos_imp_zdiv_nonneg_iff)
  ultimately show ?thesis
    unfolding small_def sint_spec_rttvar [OF assms] by simp
qed


lemma sint_sum_4:
  assumes "small s" and "small v"
  shows "sint (s + 4 * v) = sint s + 4 * sint v"
proof -
  have b: "0 \<le> sint s" "sint s \<le> 2 ^ 53" "0 \<le> sint v" "sint v \<le> 2 ^ 53"
    using assms by (simp_all add: small_def)
  have "sint (4 * v) = sint (4 :: int64) * sint v"
    using b by (intro sint_mult_no_overflow) simp_all
  then have m: "sint (4 * v) = 4 * sint v" by simp
  show ?thesis using b by (simp add: sint_add_no_overflow m)
qed











section \<open>Properties of the average tracker\<close>

lemma TimedOut_total: "\<exists>b. snd (TimedOut a now nid) = Inr b"
  by (auto simp: TimedOut_def avg_def split: option.splits)

lemma TimedOut_avg_nonzero: "r \<in> set (fst (TimedOut a now nid)) \<Longrightarrow> count r \<noteq> 0"
  by (simp add: TimedOut_def split: option.splits if_splits)

lemma sint_succ:
  assumes "sint (c::int64) < 2 ^ 63 - 1"
  shows "sint (c + 1) = sint c + 1"
proof -
  have "- (2 ^ 63) \<le> sint c" using sint_ge [of c] by simp
  then have "signed_take_bit 63 (sint c + 1) = sint c + 1"
    using assms by (intro signed_take_bit_int_eq_self) simp_all
  then show ?thesis by (simp add: sint_word_ariths)
qed

lemma HeardFrom_counts:
  assumes cb: "counts_bounded a n" and n0: "0 \<le> n" and n: "n < 2 ^ 63 - 1"
  shows "counts_bounded (HeardFrom a now nid reset) (n + 1)"
  unfolding counts_bounded_def
proof (intro allI impI)
  fix x r
  assume r: "rec (HeardFrom a now nid reset) x = Some r"
  show "0 \<le> sint (count r) \<and> sint (count r) \<le> n + 1"
  proof (cases "x = nid")
    case False
    then have "rec a x = Some r"
      using r by (simp add: HeardFrom_def Let_def split: option.splits if_splits)
    with cb show ?thesis by (fastforce simp: counts_bounded_def)
  next
    case True
    show ?thesis
    proof (cases "rec a nid")
      case None
      then show ?thesis using r True n0 by (auto simp: HeardFrom_def)
    next
      case (Some r0)
      with cb have b: "0 \<le> sint (count r0)" "sint (count r0) \<le> n"
        by (simp_all add: counts_bounded_def)
      then have "sint (count r0 + 1) = sint (count r0) + 1"
        using n by (intro sint_succ) simp
      then show ?thesis
        using r True Some b n0 by (auto simp: HeardFrom_def Let_def split: if_splits)
    qed
  qed
qed

lemma run_HeardFrom_counts:
  "counts_bounded a n \<Longrightarrow> 0 \<le> n \<Longrightarrow> n + int (length evs) < 2 ^ 63 \<Longrightarrow>
   counts_bounded (run_HeardFrom a evs) (n + int (length evs))"
proof (induction evs arbitrary: a n)
  case Nil
  then show ?case by simp
next
  case (Cons ev evs)
  obtain now nid reset where ev: "ev = (now, nid, reset)" by (cases ev)
  have "counts_bounded (HeardFrom a now nid reset) (n + 1)"
    using Cons.prems by (intro HeardFrom_counts) simp_all
  from Cons.IH [OF this] Cons.prems(2,3) show ?case
    by (simp add: ev add.assoc)
qed

lemma TimedOut_no_record: "rec a nid = None \<Longrightarrow> TimedOut a now nid = ([], Inr True)"
  by (simp add: TimedOut_def)

lemma TimedOut_count_0:
  "rec a nid = Some r \<Longrightarrow> count r = 0 \<Longrightarrow> TimedOut a now nid = ([], Inr False)"
  by (simp add: TimedOut_def)

lemma HeardFrom_reset: "rec (HeardFrom a t nid True) nid = Some \<lparr>count = 0, last = t, totalMS = 0\<rparr>"
  by (simp add: HeardFrom_def split: option.splits)

lemma HeardFrom_fresh:
  "rec a nid = None \<Longrightarrow>
   rec (HeardFrom a t nid reset) nid = Some \<lparr>count = 0, last = t, totalMS = 0\<rparr>"
  by (simp add: HeardFrom_def)

lemma TimedOut_reachable_positive:
  assumes len: "int (length evs) < 2 ^ 63"
    and r: "r \<in> set (fst (TimedOut (run_HeardFrom (newAvgTracker f) evs) now nid))"
  shows "0 < sint (count r)"
proof -
  have "counts_bounded (newAvgTracker f) 0"
    by (simp add: counts_bounded_def newAvgTracker_def)
  from run_HeardFrom_counts [OF this, of evs] len
  have cb: "counts_bounded (run_HeardFrom (newAvgTracker f) evs) (int (length evs))" by simp
  from r have "rec (run_HeardFrom (newAvgTracker f) evs) nid = Some r" and nz: "count r \<noteq> 0"
    by (auto simp: TimedOut_def split: option.splits if_splits)
  with cb have "0 \<le> sint (count r)" by (simp add: counts_bounded_def)
  moreover have "sint (count r) \<noteq> 0" using nz by (simp add: signed_eq_0_iff)
  ultimately show "0 < sint (count r)" by simp
qed


section \<open>Properties of the heartbeat retries\<close>

lemma register_loop_Tick:
  "register_loop k pid tmo i (Tick env # evs) =
     (let d = (if retriable env then maxKeepalive k else elapsed env);
          u = updateTimeoutForDaemon k pid d;
          r = \<lparr>attempt_no = Suc i, used_timeout = tmo, attempt_failed = failed env, sample = d\<rparr>
      in if \<not> failed env then (Some False, snd u, [r])
         else if Suc i = kaNumRetries then (Some True, snd u, [r])
         else if \<not> unreachable env \<and> stopping env then (Some True, snd u, [r])
         else (fst (register_loop (snd u) pid (fst u) (Suc i) evs),
               fst (snd (register_loop (snd u) pid (fst u) (Suc i) evs)),
               r # snd (snd (register_loop (snd u) pid (fst u) (Suc i) evs))))"
  by (simp add: Let_def split_beta)

declare register_loop.simps(3) [simp del]

lemma register_loop_length:
  "i < kaNumRetries \<Longrightarrow>
   length (snd (snd (register_loop k pid tmo i evs))) \<le> kaNumRetries - i"
proof (induction evs arbitrary: k tmo i)
  case Nil
  then show ?case by simp
next
  case (Cons ev evs)
  show ?case
  proof (cases ev)
    case (Sig msg)
    then show ?thesis using Cons by simp
  next
    case (Tick env)
    show ?thesis
    proof (cases "Suc i = kaNumRetries")
      case True
      then have "Suc 0 \<le> kaNumRetries - i" by arith
      then show ?thesis using True by (simp add: Tick register_loop_Tick Let_def)
    next
      case False
      then have lt: "Suc i < kaNumRetries" using Cons.prems by simp
      have "length (snd (snd (register_loop k' pid tmo' (Suc i) evs))) \<le> kaNumRetries - Suc i"
        for k' tmo'
        by (rule Cons.IH [OF lt])
      moreover have "Suc (kaNumRetries - Suc i) = kaNumRetries - i" using lt by arith
      ultimately have "Suc (length (snd (snd (register_loop k' pid tmo' (Suc i) evs))))
          \<le> kaNumRetries - i" for k' tmo'
        by (metis Suc_le_mono)
      moreover have "Suc 0 \<le> kaNumRetries - i" using lt by arith
      ultimately show ?thesis
        by (simp add: Tick register_loop_Tick Let_def)
    qed
  qed
qed

lemma register_loop_success:
  "\<exists>r \<in> set (snd (snd (register_loop k pid tmo i evs))). \<not> attempt_failed r \<Longrightarrow>
   fst (register_loop k pid tmo i evs) = Some False"
proof (induction evs arbitrary: k tmo i)
  case Nil
  then show ?case by simp
next
  case (Cons ev evs)
  show ?case
  proof (cases ev)
    case (Sig msg)
    then show ?thesis using Cons by (simp split: if_splits)
  next
    case (Tick env)
    then show ?thesis
      using Cons.prems Cons.IH
      by (auto simp: register_loop_Tick Let_def split: if_splits)
  qed
qed

lemma register_loop_exhausted:
  "i < kaNumRetries \<Longrightarrow>
   i + length (snd (snd (register_loop k pid tmo i evs))) = kaNumRetries \<Longrightarrow>
   \<forall>r \<in> set (snd (snd (register_loop k pid tmo i evs))). attempt_failed r \<Longrightarrow>
   fst (register_loop k pid tmo i evs) = Some True"
proof (induction evs arbitrary: k tmo i)
  case Nil
  then show ?case by simp
next
  case (Cons ev evs)
  show ?case
  proof (cases ev)
    case (Sig msg)
    then show ?thesis using Cons by (simp split: if_splits)
  next
    case (Tick env)
    show ?thesis
    proof (cases "Suc i = kaNumRetries")
      case True
      then show ?thesis
        using Cons.prems(3) by (auto simp: Tick register_loop_Tick Let_def split: if_splits)
    next
      case False
      then have lt: "Suc i < kaNumRetries" using Cons.prems by simp
      show ?thesis
        using Cons.prems(2,3) Cons.IH [OF lt] False
        by (auto simp: Tick register_loop_Tick Let_def split: if_splits)
    qed
  qed
qed

lemma register_loop_attempt_numbers:
  "map attempt_no (snd (snd (register_loop k pid tmo i evs))) =
     [Suc i ..< Suc i + length (snd (snd (register_loop k pid tmo i evs)))]"
proof (induction evs arbitrary: k tmo i)
  case Nil
  then show ?case by simp
next
  case (Cons ev evs)
  show ?case
  proof (cases ev)
    case (Sig msg)
    then show ?thesis using Cons [of k tmo i] by (simp del: upt_Suc)
  next
    case (Tick env)
    have step: "[Suc i ..< Suc i + Suc n] = Suc i # [Suc (Suc i) ..< Suc (Suc i) + n]" for n
      by (simp add: upt_conv_Cons del: upt_Suc)
    have single: "[n ..< Suc n] = [n]" for n :: nat
      by simp
    show ?thesis
      using Cons.IH [of _ _ "Suc i"] step
      by (simp add: Tick register_loop_Tick Let_def single del: upt_Suc)
  qed
qed

lemma maxKeepalive_register_loop:
  "maxKeepalive (fst (snd (register_loop k pid tmo i evs))) = maxKeepalive k"
proof (induction evs arbitrary: k tmo i)
  case Nil
  then show ?case by simp
next
  case (Cons ev evs)
  show ?case
  proof (cases ev)
    case (Sig msg)
    then show ?thesis using Cons by simp
  next
    case (Tick env)
    then show ?thesis
      using Cons.IH by (auto simp: register_loop_Tick Let_def maxKeepalive_updateTimeoutForDaemon)
  qed
qed

lemma register_loop_samples:
  "map sample (snd (snd (register_loop k pid tmo i evs))) =
     map (\<lambda>env. if retriable env then maxKeepalive k else elapsed env)
       (take (length (snd (snd (register_loop k pid tmo i evs)))) (ticks evs))"
proof (induction evs arbitrary: k tmo i)
  case Nil
  then show ?case by simp
next
  case (Cons ev evs)
  show ?case
  proof (cases ev)
    case (Sig msg)
    then show ?thesis using Cons by (simp add: ticks_def)
  next
    case (Tick env)
    have t: "ticks (Tick env # evs) = env # ticks evs" by (simp add: ticks_def)
    show ?thesis
      unfolding Tick t
      using Cons.IH [of "snd (updateTimeoutForDaemon k pid
            (if retriable env then maxKeepalive k else elapsed env))"]
      by (auto simp: register_loop_Tick Let_def maxKeepalive_updateTimeoutForDaemon)
  qed
qed

lemma register_loop_failed_flags:
  "map attempt_failed (snd (snd (register_loop k pid tmo i evs))) =
     map failed (take (length (snd (snd (register_loop k pid tmo i evs)))) (ticks evs))"
proof (induction evs arbitrary: k tmo i)
  case Nil
  then show ?case by simp
next
  case (Cons ev evs)
  show ?case
  proof (cases ev)
    case (Sig msg)
    then show ?thesis using Cons by (simp add: ticks_def)
  next
    case (Tick env)
    have t: "ticks (Tick env # evs) = env # ticks evs" by (simp add: ticks_def)
    show ?thesis
      unfolding Tick t using Cons.IH by (auto simp: register_loop_Tick Let_def)
  qed
qed

text \<open>What an undisturbed run of the loop returns, by the number of leading failures.\<close>

lemma register_loop_progress:
  assumes "undisturbed evs" and "i < kaNumRetries"
  shows "(kaNumRetries \<le> i + leading_failures evs \<longrightarrow>
            fst (register_loop k pid tmo i evs) = Some True \<and>
            length (snd (snd (register_loop k pid tmo i evs))) = kaNumRetries - i) \<and>
         (i + leading_failures evs < kaNumRetries \<and>
          leading_failures evs < length (ticks evs) \<longrightarrow>
            fst (register_loop k pid tmo i evs) = Some False \<and>
            length (snd (snd (register_loop k pid tmo i evs))) = leading_failures evs + 1) \<and>
         (i + leading_failures evs < kaNumRetries \<and>
          leading_failures evs = length (ticks evs) \<longrightarrow>
            fst (register_loop k pid tmo i evs) = None \<and>
            length (snd (snd (register_loop k pid tmo i evs))) = leading_failures evs)"
  using assms
proof (induction evs arbitrary: k tmo i)
  case Nil
  then show ?case by (simp add: leading_failures_def ticks_def)
next
  case (Cons ev evs)
  have und: "undisturbed evs" using Cons.prems(1) by (simp add: undisturbed_def)
  show ?case
  proof (cases ev)
    case (Sig msg)
    then have "msg \<noteq> kaStopMsg" using Cons.prems(1) by (simp add: undisturbed_def)
    moreover have "leading_failures (Sig msg # evs) = leading_failures evs"
      "ticks (Sig msg # evs) = ticks evs"
      by (simp_all add: leading_failures_def ticks_def)
    ultimately show ?thesis
      using Cons.IH [OF und Cons.prems(2), of k tmo] by (simp add: Sig)
  next
    case (Tick env)
    have t: "ticks (Tick env # evs) = env # ticks evs" by (simp add: ticks_def)
    show ?thesis
    proof (cases "failed env")
      case False
      then have "leading_failures (Tick env # evs) = 0"
        by (simp add: leading_failures_def t)
      then show ?thesis
        using False Cons.prems(2) by (simp add: Tick t register_loop_Tick Let_def)
    next
      case True
      then have n: "leading_failures (Tick env # evs) = Suc (leading_failures evs)"
        by (simp add: leading_failures_def t)
      have go: "\<not> (\<not> unreachable env \<and> stopping env)"
        using Cons.prems(1) True by (simp add: undisturbed_def Tick)
      show ?thesis
      proof (cases "Suc i = kaNumRetries")
        case last: True
        then show ?thesis
          using True by (auto simp: Tick t n register_loop_Tick Let_def)
      next
        case False
        then have lt: "Suc i < kaNumRetries" using Cons.prems(2) by simp
        note IH = Cons.IH [OF und lt]
        have d: "Suc (kaNumRetries - Suc i) = kaNumRetries - i" using lt by arith
        show ?thesis
          using True False go IH d
          by (auto simp: Tick t n register_loop_Tick Let_def)
      qed
    qed
  qed
qed


section \<open>Properties of the rebalance predicate\<close>

lemma IsAnySet_MaintDecomm:
  "IsAnySet f NodeFlagsMaintDecomm = (IsAnySet f NodeFlagMaint \<or> IsAnySet f NodeFlagDecomm)"
  by (auto simp: IsAnySet_def NodeFlagsMaintDecomm_def bit.conj_disj_distrib or_eq_0_iff)

lemma active_iff: "active si = (\<not> IsAnySet (Flags si) NodeFlagsMaintDecomm)"
  by (simp add: active_def IsAnySet_MaintDecomm)

lemma GetNodeNotMaint_None:
  "(GetNodeNotMaint m sid = None) = absent_or_maintenance m sid"
  by (simp add: GetNodeNotMaint_def absent_or_maintenance_def active_iff split: option.splits)

lemma scan_targets_iff:
  "scan_targets other xs =
     (\<exists>si \<in> set xs. \<not> IsProxy si \<and> active si \<and> absent_or_maintenance other (DaemonID si))"
  by (induction xs) (auto simp: active_iff GetNodeNotMaint_None)

lemma scan_targets_targets:
  "\<forall>si \<in> set xs. IsTarget si \<Longrightarrow>
   scan_targets other xs = (\<exists>si \<in> set xs. active si \<and> absent_or_maintenance other (DaemonID si))"
  by (auto simp: scan_targets_iff IsTarget_def IsProxy_def)

lemma CountActiveTargets_nonzero:
  "(CountActiveTargets m \<noteq> 0) = has_active_target m"
  by (auto simp: CountActiveTargets_def has_active_target_def active_iff filter_empty_conv)

lemma mustRunRebalance_result:
  assumes "targets_only (smap ctx)" and "targets_only cur"
  shows "fst (mustRunRebalance rebEnabled ctx cur) =
           (mustReb ctx \<or> (rebEnabled \<and> spec_mustRunRebalance (smap ctx) cur))"
proof -
  have a: "scan_targets (smap ctx) (nodes_of (Tmap cur)) =
      (\<exists>si \<in> set (nodes_of (Tmap cur)). active si \<and> absent_or_maintenance (smap ctx) (DaemonID si))"
    using assms(2) by (intro scan_targets_targets) (simp add: targets_only_def)
  have b: "scan_targets cur (nodes_of (Tmap (smap ctx))) =
      (\<exists>si \<in> set (nodes_of (Tmap (smap ctx))). active si \<and> absent_or_maintenance cur (DaemonID si))"
    using assms(1) by (intro scan_targets_targets) (simp add: targets_only_def)
  show ?thesis
    unfolding mustRunRebalance_def Let_def spec_mustRunRebalance_def a b
      CountActiveTargets_nonzero [symmetric]
    by (cases "mustReb ctx"; cases rebEnabled) auto
qed

lemma mustRunRebalance_caches:
  "mustReb (snd (mustRunRebalance rebEnabled ctx cur)) = fst (mustRunRebalance rebEnabled ctx cur) \<and>
   smap (snd (mustRunRebalance rebEnabled ctx cur)) = smap ctx"
  by (simp add: mustRunRebalance_def Let_def)


section \<open>Properties of the administrative change of the primary\<close>

lemma find_res_err:
  "\<exists>res \<in> set rs. res_err res \<Longrightarrow> \<exists>res. find res_err rs = Some res"
  by (cases "find res_err rs") (auto simp: find_None_iff)

lemma cluSetPrimary_prepare_failed:
  assumes "\<exists>res \<in> set (prepare_results req). res_err res"
  shows "fst (cluSetPrimary p req) = p \<and>
         (snd (snd (cluSetPrimary p req)) = [] \<or>
          snd (cluSetPrimary p req) =
            (RespErr ''node failed to set primary in the prepare phase'', [BcastPrepare]))"
  using find_res_err [OF assms]
  by (auto simp: cluSetPrimary_def Let_def split: option.splits)


section \<open>Properties of the join handler\<close>

lemma Equals_Flags [simp]: "Equals a (b\<lparr>Flags := f\<rparr>) = Equals a b"
  by (simp add: Equals_def)

lemma IsProxy_Flags [simp]: "IsProxy (b\<lparr>Flags := f\<rparr>) = IsProxy b"
  by (simp add: IsProxy_def)




lemma IsProxy_with_flags [simp]: "IsProxy (with_flags m req nsi) = IsProxy nsi"
  by (simp add: with_flags_def Let_def split: option.splits)










section \<open>Properties of the notification listeners\<close>

lemma handler_other_uuid:
  assumes "m_uuid msg \<noteq> uuid"
  shows "nls (fst (handler n msg)) uuid = nls n uuid"
    and "fin (fst (handler n msg)) uuid = fin n uuid"
  using assms
  by (auto simp: handler_def store_nl_def done_nl_def Let_def split: option.splits)

lemma entry_cong:
  "nls n' uuid = nls n uuid \<Longrightarrow> fin n' uuid = fin n uuid \<Longrightarrow> entry n' uuid = entry n uuid"
  by (simp add: entry_def split: option.splits)

lemma markFinished_fields [simp]:
  "nl_notifiers (markFinished l msg) = nl_notifiers l"
  "nl_finished (markFinished l msg) = List.insert (m_sender msg) (nl_finished l)"
  "nl_aborted (markFinished l msg) = (nl_aborted l \<or> m_aborted msg)"
  "nl_callbacks (markFinished l msg) = nl_callbacks l"
  "nl_done (markFinished l msg) = nl_done l"
  by (auto simp: markFinished_def Let_def split: option.splits)

lemma merge_stats_fields [simp]:
  "nl_notifiers (merge_stats l msg) = nl_notifiers l"
  "nl_finished (merge_stats l msg) = nl_finished l"
  "nl_aborted (merge_stats l msg) = nl_aborted l"
  "nl_callbacks (merge_stats l msg) = nl_callbacks l"
  "nl_done (merge_stats l msg) = nl_done l"
  by (simp_all add: merge_stats_def)

lemma handler_step:
  assumes "nl_state uuid N n D ab"
  shows "nl_state uuid N (fst (handler n msg))
           (if relevant uuid N msg then insert (m_sender msg) D else D)
           (ab \<or> (relevant uuid N msg \<and> m_aborted msg))"
proof -
  from assms obtain l where l: "entry n uuid = Some l"
    "nl_notifiers l = N" "set (nl_finished l) = D" "nl_aborted l = ab"
    and st: "if ab \<or> D = set N
           then nls n uuid = None \<and> fin n uuid = Some l \<and> nl_callbacks l = 1 \<and> Finished l
           else nls n uuid = Some l \<and> nl_callbacks l = 0 \<and> \<not> Finished l"
    unfolding nl_state_def by blast
  show ?thesis
  proof (cases "m_uuid msg = uuid")
    case False
    then have nr: "\<not> relevant uuid N msg" by (simp add: relevant_def)
    have e: "entry (fst (handler n msg)) uuid = entry n uuid"
      by (intro entry_cong handler_other_uuid False)
    have "nl_state uuid N (fst (handler n msg)) D ab"
      using assms by (simp only: nl_state_def e handler_other_uuid [OF False, of n])
    then show ?thesis using nr by simp
  next
    case True
    show ?thesis
    proof (cases "m_sender msg \<in> set N")
      case False
      then have nr: "\<not> relevant uuid N msg" by (simp add: relevant_def)
      have "fst (handler n msg) = n"
        using False l True by (simp add: handler_def)
      then show ?thesis using nr assms by simp
    next
      case sender: True
      show ?thesis
      proof (cases "m_finished msg")
        case False
        then have nr: "\<not> relevant uuid N msg" by (simp add: relevant_def)
        have "nl_state uuid N (fst (handler n msg)) D ab"
          using l st True sender False
          by (auto simp: handler_def nl_state_def store_nl_def entry_def Finished_def
              split: option.splits if_splits)
        then show ?thesis using nr by simp
      next
        case fin: True
        then have r: "relevant uuid N msg" using True sender by (simp add: relevant_def)
        show ?thesis
          using l st True sender fin r
          by (auto simp: handler_def nl_state_def store_nl_def done_nl_def entry_def
              Finished_def all_finished_def Let_def split: option.splits if_splits)
      qed
    qed
  qed
qed

lemma delivered_Cons:
  "delivered uuid N (msg # msgs) =
     (if relevant uuid N msg then insert (m_sender msg) (delivered uuid N msgs)
      else delivered uuid N msgs)"
  by (auto simp: delivered_def)

lemma abort_seen_Cons:
  "abort_seen uuid N (msg # msgs) =
     ((relevant uuid N msg \<and> m_aborted msg) \<or> abort_seen uuid N msgs)"
  by (auto simp: abort_seen_def)

lemma delivered_Nil: "delivered uuid N [] = {}"
  by (simp add: delivered_def)

lemma abort_seen_Nil: "abort_seen uuid N [] = False"
  by (simp add: abort_seen_def)

lemma delivered_subset: "delivered uuid N msgs \<subseteq> set N"
  by (auto simp: delivered_def relevant_def)

lemma run_handler_state:
  "nl_state uuid N n D ab \<Longrightarrow>
   nl_state uuid N (run_handler n msgs) (D \<union> delivered uuid N msgs)
     (ab \<or> abort_seen uuid N msgs)"
proof (induction msgs arbitrary: n D ab)
  case Nil
  then show ?case by (simp add: delivered_def abort_seen_def)
next
  case (Cons msg msgs)
  from Cons.IH [OF handler_step [OF Cons.prems, of msg]]
  show ?case
    by (simp add: delivered_Cons abort_seen_Cons disj_ac Un_ac split: if_splits)
qed

lemma nl_state_registered:
  assumes "N \<noteq> []" and "nls n uuid = Some (newNL uuid N)"
  shows "nl_state uuid N n {} False"
  using assms by (auto simp: nl_state_def entry_def newNL_def Finished_def)

lemma run_handler_registered:
  assumes "N \<noteq> []" and "nls n uuid = Some (newNL uuid N)"
  shows "nl_state uuid N (run_handler n msgs) (delivered uuid N msgs) (abort_seen uuid N msgs)"
  using run_handler_state [OF nl_state_registered [OF assms], of msgs] by simp

lemma run_handler_append: "run_handler n (xs @ ys) = run_handler (run_handler n xs) ys"
  by (induction xs arbitrary: n) simp_all

lemma abort_seen_append:
  "abort_seen uuid N xs \<Longrightarrow> abort_seen uuid N (xs @ ys)"
  by (auto simp: abort_seen_def)


section \<open>Claims about the adaptive timeout\<close>

text \<open>
  C2. One call of \<open>updateTimeoutForDaemon\<close> for a peer and an observed round trip \<open>\<delta>\<close>
  takes the statistics that the tracker stores for the peer, or for a peer without an entry
  the initial ones (\<open>maxKeepalive\<close>, \<open>maxKeepalive / 2\<close>, \<open>maxKeepalive\<close>), and stores for the
  peer: \<open>rttvar\<close> rounded from \<open>(1000 - 250) * rttvar + 250 * |srtt_old - \<delta>|\<close> over 1000,
  computed from the \<open>srtt\<close> before the update; \<open>srtt\<close> rounded from
  \<open>(1000 - 125) * srtt_old + 125 * \<delta>\<close> over 1000; \<open>timeout\<close> the sum \<open>srtt + 4 * rttvar\<close>
  of the new values, clamped to \<open>[maxKeepalive / 2, maxKeepalive]\<close>. The call returns the new
  timeout and changes nothing else. The arithmetic is that of \<open>int64\<close>; for values up to
  \<open>2^53\<close> nanoseconds it is the arithmetic of the integers, with the quotient rounded to the
  nearest integer, halves upwards.
\<close>

theorem updateTimeoutForDaemon_recursion:
  "updateTimeoutForDaemon k sid \<delta> =
     (let ts0 = (case tt k sid of
                   Some ts \<Rightarrow> ts
                 | None \<Rightarrow> \<lparr>srtt = maxKeepalive k, rttvar = i64_div (maxKeepalive k) 2,
                             timeout = maxKeepalive k\<rparr>);
          rttvar_new = spec_rttvar (srtt ts0) (rttvar ts0) \<delta>;
          srtt_new = spec_srtt (srtt ts0) \<delta>;
          timeout_new = spec_clamp (srtt_new + 4 * rttvar_new)
                          (i64_div (maxKeepalive k) 2) (maxKeepalive k)
      in (timeout_new,
          k\<lparr>tt := (tt k)(sid \<mapsto>
               \<lparr>srtt = srtt_new, rttvar = rttvar_new, timeout = timeout_new\<rparr>)\<rparr>)) \<and>
   (small s \<and> small v \<and> small \<delta> \<longrightarrow>
      sint (spec_rttvar s v \<delta>) = (750 * sint v + 250 * \<bar>sint s - sint \<delta>\<bar> + 500) div 1000 \<and>
      sint (spec_srtt s \<delta>) = (875 * sint s + 125 * sint \<delta> + 500) div 1000 \<and>
      sint (spec_srtt s \<delta> + 4 * spec_rttvar s v \<delta>) =
        sint (spec_srtt s \<delta>) + 4 * sint (spec_rttvar s v \<delta>))"
proof (intro conjI impI)
  have ts0: "fst (timeoutStatsForDaemon k sid) =
      (case tt k sid of
         Some ts \<Rightarrow> ts
       | None \<Rightarrow> \<lparr>srtt = maxKeepalive k, rttvar = i64_div (maxKeepalive k) 2,
                   timeout = maxKeepalive k\<rparr>)"
    by (simp add: timeoutStatsForDaemon_def Let_def split: option.splits)
  show "updateTimeoutForDaemon k sid \<delta> =
     (let ts0 = (case tt k sid of
                   Some ts \<Rightarrow> ts
                 | None \<Rightarrow> \<lparr>srtt = maxKeepalive k, rttvar = i64_div (maxKeepalive k) 2,
                             timeout = maxKeepalive k\<rparr>);
          rttvar_new = spec_rttvar (srtt ts0) (rttvar ts0) \<delta>;
          srtt_new = spec_srtt (srtt ts0) \<delta>;
          timeout_new = spec_clamp (srtt_new + 4 * rttvar_new)
                          (i64_div (maxKeepalive k) 2) (maxKeepalive k)
      in (timeout_new,
          k\<lparr>tt := (tt k)(sid \<mapsto>
               \<lparr>srtt = srtt_new, rttvar = rttvar_new, timeout = timeout_new\<rparr>)\<rparr>))"
    unfolding ts0 [symmetric]
    by (simp add: updateTimeoutForDaemon_closed_form Let_def spec_timeout_def)
next
  assume a: "small s \<and> small v \<and> small \<delta>"
  then show "sint (spec_rttvar s v \<delta>) =
      (750 * sint v + 250 * \<bar>sint s - sint \<delta>\<bar> + 500) div 1000"
    by (intro sint_spec_rttvar) simp_all
  from a show "sint (spec_srtt s \<delta>) = (875 * sint s + 125 * sint \<delta> + 500) div 1000"
    by (intro sint_spec_srtt) simp_all
  from a show "sint (spec_srtt s \<delta> + 4 * spec_rttvar s v \<delta>) =
        sint (spec_srtt s \<delta>) + 4 * sint (spec_rttvar s v \<delta>)"
    by (intro sint_sum_4 small_spec_srtt small_spec_rttvar) simp_all
qed

theorem updateTimeoutForDaemon_recursion_witness:
  "small 4000000000 \<and> small 200000000 \<and>
   tt ka1 ''p1'' = Some \<lparr>srtt = 4000000000, rttvar = 200000000, timeout = 4800000000\<rparr> \<and>
   fst (updateTimeoutForDaemon ka1 ''p1'' 4000000000) = 4600000000 \<and>
   tt (snd (updateTimeoutForDaemon ka1 ''p1'' 4000000000)) ''p1'' =
     Some \<lparr>srtt = 4000000000, rttvar = 150000000, timeout = 4600000000\<rparr> \<and>
   sint (spec_rttvar 4000000000 200000000 4000000000) = 150000000 \<and>
   sint (spec_srtt 4000000000 4000000000) = 4000000000 \<and>
   tt ka0 ''p1'' = None \<and>
   tt (snd (updateTimeoutForDaemon ka0 ''p1'' 6000000000)) ''p1'' =
     Some \<lparr>srtt = 6000000000, rttvar = 2250000000, timeout = 6000000000\<rparr>"
proof -
  have sm: "small 4000000000" "small 200000000" "small 6000000000" "small 3000000000"
    by (simp_all add: small_def)
  have half: "i64_div 6000000000 2 = 3000000000"
    by (simp add: i64_div_def signed_divide_int_def)
  have stored: "tt ka1 ''p1'' =
      Some \<lparr>srtt = 4000000000, rttvar = 200000000, timeout = 4800000000\<rparr>"
    "tt ka0 ''p1'' = None"
    by (simp_all add: ka1_def ka0_def)
  note a = updateTimeoutForDaemon_recursion [of ka1 "''p1''" 4000000000 4000000000 200000000]
  note b = updateTimeoutForDaemon_recursion [of ka0 "''p1''" 6000000000 6000000000 3000000000]
  have vals: "sint (spec_rttvar 4000000000 200000000 4000000000) = 150000000"
    "sint (spec_srtt 4000000000 4000000000) = 4000000000"
    "sint (spec_rttvar 6000000000 3000000000 6000000000) = 2250000000"
    "sint (spec_srtt 6000000000 6000000000) = 6000000000"
    using sm a b by simp_all
  have "sint (spec_rttvar 4000000000 200000000 4000000000) = sint (150000000 :: int64)"
    "sint (spec_srtt 4000000000 4000000000) = sint (4000000000 :: int64)"
    "sint (spec_rttvar 6000000000 3000000000 6000000000) = sint (2250000000 :: int64)"
    "sint (spec_srtt 6000000000 6000000000) = sint (6000000000 :: int64)"
    using vals by simp_all
  then have w: "spec_rttvar 4000000000 200000000 4000000000 = 150000000"
    "spec_srtt 4000000000 4000000000 = 4000000000"
    "spec_rttvar 6000000000 3000000000 6000000000 = 2250000000"
    "spec_srtt 6000000000 6000000000 = 6000000000"
    by (simp_all only: signed_word_eqI)
  have mk: "maxKeepalive ka1 = 6000000000" "maxKeepalive ka0 = 6000000000"
    by (simp_all add: ka1_def ka0_def)
  show ?thesis
    using sm vals a b
    by (simp add: stored mk w half spec_clamp_def MinI64_def MaxI64_def i64_less_def Let_def)
qed

text \<open>
  C3. With \<open>maxKeepalive > 0\<close> and a tracker that starts without entries, as
  \<open>newTargetKeepalive\<close> and \<open>newProxyKeepalive\<close> create it: every timeout returned by a run
  of \<open>updateTimeoutForDaemon\<close> calls, with any durations, lies in
  \<open>[maxKeepalive / 2, maxKeepalive]\<close>; after the run the timeout of every peer \<open>P\<close>, as
  \<open>timeoutStatsForDaemon\<close> yields it, lies in that interval; and a peer without an entry
  materialises with \<open>srtt = maxKeepalive\<close>, \<open>rttvar = maxKeepalive / 2\<close> and
  \<open>timeout = maxKeepalive\<close>.
\<close>

theorem timeout_within_bounds:
  assumes pos: "0 < sint (maxKeepalive k)" and fresh: "tt k = Map.empty"
  shows "(\<forall>t \<in> set (fst (run_updates k ops)). in_timeout_range (maxKeepalive k) t) \<and>
         in_timeout_range (maxKeepalive k)
           (timeout (fst (timeoutStatsForDaemon (snd (run_updates k ops)) P))) \<and>
         (tt (snd (run_updates k ops)) P = None \<longrightarrow>
            fst (timeoutStatsForDaemon (snd (run_updates k ops)) P) =
              \<lparr>srtt = maxKeepalive k, rttvar = i64_div (maxKeepalive k) 2,
               timeout = maxKeepalive k\<rparr>)"
proof -
  have nn: "0 \<le> sint (maxKeepalive k)" using pos by simp
  have init: "stats_in_range k" using fresh by (simp add: stats_in_range_def)
  note inv = run_updates_invariant [OF nn init, of ops]
  have "in_timeout_range (maxKeepalive (snd (run_updates k ops)))
           (timeout (fst (timeoutStatsForDaemon (snd (run_updates k ops)) P)))"
    using inv nn by (intro timeoutStatsForDaemon_in_range) simp_all
  moreover have "tt (snd (run_updates k ops)) P = None \<longrightarrow>
            fst (timeoutStatsForDaemon (snd (run_updates k ops)) P) =
              \<lparr>srtt = maxKeepalive k, rttvar = i64_div (maxKeepalive k) 2,
               timeout = maxKeepalive k\<rparr>"
    using inv by (simp add: timeoutStatsForDaemon_def Let_def)
  ultimately show ?thesis using inv by simp
qed

theorem timeout_within_bounds_witness:
  "0 < sint (6000000000 :: int64) \<and>
   fst (run_updates \<lparr>maxKeepalive = 6000000000, tt = Map.empty\<rparr>
          [(''t1'', 600000000), (''t1'', 600000000)]) =
     [6000000000, 6000000000] \<and>
   in_timeout_range 6000000000 6000000000 \<and>
   in_timeout_range 6000000000
     (timeout (fst (timeoutStatsForDaemon
        (snd (run_updates \<lparr>maxKeepalive = 6000000000, tt = Map.empty\<rparr>
           [(''t1'', 600000000), (''t1'', 600000000)])) ''t1''))) \<and>
   fst (timeoutStatsForDaemon
        (snd (run_updates \<lparr>maxKeepalive = 6000000000, tt = Map.empty\<rparr> [])) ''t1'') =
     \<lparr>srtt = 6000000000, rttvar = 3000000000, timeout = 6000000000\<rparr>"
proof -
  have run: "fst (run_updates \<lparr>maxKeepalive = 6000000000, tt = Map.empty\<rparr>
          [(''t1'', 600000000), (''t1'', 600000000)]) =
     [6000000000, 6000000000]"
    by (simp add: updateTimeoutForDaemon_closed_form Let_def timeoutStatsForDaemon_def
        spec_srtt_def spec_rttvar_def spec_timeout_def spec_clamp_def DivRound_def i64_div_def
        AbsI64_def MinI64_def MaxI64_def i64_less_def signed_divide_int_def)
  have half: "i64_div 6000000000 2 = 3000000000"
    by (simp add: i64_div_def signed_divide_int_def)
  show ?thesis
    using run half
      timeout_within_bounds [of "\<lparr>maxKeepalive = 6000000000, tt = Map.empty\<rparr>"
        "[(''t1'', 600000000), (''t1'', 600000000)]" "''t1''"]
      timeout_within_bounds [of "\<lparr>maxKeepalive = 6000000000, tt = Map.empty\<rparr>" "[]" "''t1''"]
    by simp
qed


section \<open>Claims about the average tracker\<close>

text \<open>
  C10. \<open>AvgTracker.TimedOut\<close> always returns a boolean and never panics with a division by
  zero: an id without a record gives \<open>true\<close>; a record with \<open>count = 0\<close>, as \<open>HeardFrom\<close>
  leaves it for a new id or with \<open>reset = true\<close>, gives \<open>false\<close> without invoking \<open>avg\<close>;
  \<open>avg\<close> is invoked only on a record with \<open>count \<noteq> 0\<close>, and in a tracker built from
  \<open>newAvgTracker\<close> by fewer than \<open>2^63\<close> calls of \<open>HeardFrom\<close> only with \<open>count > 0\<close>.
\<close>

theorem TimedOut_never_divides_by_zero:
  "(\<exists>b. snd (TimedOut a now nid) = Inr b) \<and>
   (rec a nid = None \<longrightarrow> TimedOut a now nid = ([], Inr True)) \<and>
   (\<forall>r. rec a nid = Some r \<and> count r = 0 \<longrightarrow> TimedOut a now nid = ([], Inr False)) \<and>
   TimedOut (HeardFrom a t nid True) now nid = ([], Inr False) \<and>
   (rec a nid = None \<longrightarrow> TimedOut (HeardFrom a t nid reset) now nid = ([], Inr False)) \<and>
   (\<forall>r \<in> set (fst (TimedOut a now nid)). count r \<noteq> 0) \<and>
   (int (length evs) < 2 ^ 63 \<longrightarrow>
      (\<forall>r \<in> set (fst (TimedOut (run_HeardFrom (newAvgTracker f) evs) now nid)). 0 < sint (count r)))"
proof (intro conjI)
  show "\<exists>b. snd (TimedOut a now nid) = Inr b" by (rule TimedOut_total)
  show "rec a nid = None \<longrightarrow> TimedOut a now nid = ([], Inr True)"
    by (simp add: TimedOut_no_record)
  show "\<forall>r. rec a nid = Some r \<and> count r = 0 \<longrightarrow> TimedOut a now nid = ([], Inr False)"
    by (simp add: TimedOut_count_0)
  show "TimedOut (HeardFrom a t nid True) now nid = ([], Inr False)"
    by (rule TimedOut_count_0 [OF HeardFrom_reset]) simp
  show "rec a nid = None \<longrightarrow> TimedOut (HeardFrom a t nid reset) now nid = ([], Inr False)"
    using TimedOut_count_0 [OF HeardFrom_fresh] by simp
  show "\<forall>r \<in> set (fst (TimedOut a now nid)). count r \<noteq> 0"
    using TimedOut_avg_nonzero by blast
  show "int (length evs) < 2 ^ 63 \<longrightarrow>
      (\<forall>r \<in> set (fst (TimedOut (run_HeardFrom (newAvgTracker f) evs) now nid)). 0 < sint (count r))"
    using TimedOut_reachable_positive by blast
qed

theorem TimedOut_never_divides_by_zero_witness:
  "TimedOut (newAvgTracker 3) 30000000 ''t1'' = ([], Inr True) \<and>
   TimedOut (HeardFrom (newAvgTracker 3) 100 ''t1'' False) 30000000 ''t1'' = ([], Inr False) \<and>
   0 < sint (count \<lparr>count = 1, last = 5000000, totalMS = 5\<rparr>) \<and>
   TimedOut (run_HeardFrom (newAvgTracker 3)
        [(0, ''t1'', False), (5000000, ''t1'', False)]) 30000000 ''t1'' =
     ([\<lparr>count = 1, last = 5000000, totalMS = 5\<rparr>], Inr True)"
proof -
  have len: "int (length [(0::int64, ''t1'', False), (5000000, ''t1'', False)]) < 2 ^ 63"
    by simp
  have none: "rec (newAvgTracker 3) ''t1'' = None"
    by (simp add: newAvgTracker_def)
  have run: "TimedOut (run_HeardFrom (newAvgTracker 3)
        [(0, ''t1'', False), (5000000, ''t1'', False)]) 30000000 ''t1'' =
     ([\<lparr>count = 1, last = 5000000, totalMS = 5\<rparr>], Inr True)"
    by (simp add: TimedOut_def HeardFrom_def newAvgTracker_def avg_def Millisecond_def
        i64_div_def i64_less_def signed_divide_int_def Let_def)
  show ?thesis
    using none len run
      TimedOut_never_divides_by_zero [of "newAvgTracker 3" 30000000 "''t1''" 100 False
        "[(0, ''t1'', False), (5000000, ''t1'', False)]" 3]
    by simp
qed


section \<open>Claims about the rebalance predicate\<close>

text \<open>
  C1, as amended. For maps whose target maps hold targets only: \<open>mustRunRebalance\<close> returns
  true when \<open>ctx._mustReb\<close> is already set; otherwise it returns false when rebalance is
  disabled in the config; otherwise it returns true if and only if (a) a target active in
  \<open>cur\<close> is absent or in maintenance in \<open>prev\<close>, or (b) a target active in \<open>prev\<close> is absent or
  in maintenance in \<open>cur\<close>, and both \<open>prev\<close> and \<open>cur\<close> hold at least one active target.
\<close>

theorem mustRunRebalance_iff:
  assumes "targets_only (smap ctx)" and "targets_only cur"
  shows "fst (mustRunRebalance rebEnabled ctx cur) =
           (if mustReb ctx then True
            else if \<not> rebEnabled then False
            else spec_mustRunRebalance (smap ctx) cur)"
  using mustRunRebalance_result [OF assms, of rebEnabled] by simp

theorem mustRunRebalance_iff_witness:
  "targets_only (smap_of [target_node ''t1'' 0] [proxy_node ''p1'' 0] 5) \<and>
   targets_only (smap_of [target_node ''t1'' 0, target_node ''t2'' 0] [proxy_node ''p1'' 0] 6) \<and>
   spec_mustRunRebalance (smap_of [target_node ''t1'' 0] [proxy_node ''p1'' 0] 5)
     (smap_of [target_node ''t1'' 0, target_node ''t2'' 0] [proxy_node ''p1'' 0] 6) \<and>
   fst (mustRunRebalance True
          \<lparr>smap = smap_of [target_node ''t1'' 0] [proxy_node ''p1'' 0] 5, mustReb = False\<rparr>
          (smap_of [target_node ''t1'' 0, target_node ''t2'' 0] [proxy_node ''p1'' 0] 6))"
proof -
  have p: "targets_only (smap \<lparr>smap = smap_of [target_node ''t1'' 0] [proxy_node ''p1'' 0] 5,
      mustReb = False\<rparr>)"
    by (simp add: targets_only_def smap_of_def nodes_of_def target_node_def IsTarget_def)
  have c: "targets_only (smap_of [target_node ''t1'' 0, target_node ''t2'' 0] [proxy_node ''p1'' 0] 6)"
    by (simp add: targets_only_def smap_of_def nodes_of_def target_node_def IsTarget_def)
  have s: "spec_mustRunRebalance (smap_of [target_node ''t1'' 0] [proxy_node ''p1'' 0] 5)
     (smap_of [target_node ''t1'' 0, target_node ''t2'' 0] [proxy_node ''p1'' 0] 6)"
    by (simp add: spec_mustRunRebalance_def has_active_target_def absent_or_maintenance_def
        active_def IsAnySet_def GetNode_def GetTarget_def GetProxy_def smap_of_def nodes_of_def
        target_node_def proxy_node_def)
  show ?thesis
    using p c s mustRunRebalance_iff [OF p c, of True] by simp
qed

text \<open>
  C1, as stated, fails: with rebalance disabled in the config, \<open>mustRunRebalance\<close> returns
  false for a cluster of one active target that a second active target joins; and with
  \<open>ctx._mustReb\<close> already set it returns true for an unchanged map.
\<close>

theorem mustRunRebalance_counterexample:
  "spec_mustRunRebalance (smap_of [target_node ''t1'' 0] [proxy_node ''p1'' 0] 5)
     (smap_of [target_node ''t1'' 0, target_node ''t2'' 0] [proxy_node ''p1'' 0] 6) \<and>
   \<not> fst (mustRunRebalance False
          \<lparr>smap = smap_of [target_node ''t1'' 0] [proxy_node ''p1'' 0] 5, mustReb = False\<rparr>
          (smap_of [target_node ''t1'' 0, target_node ''t2'' 0] [proxy_node ''p1'' 0] 6)) \<and>
   \<not> spec_mustRunRebalance (smap_of [target_node ''t1'' 0] [proxy_node ''p1'' 0] 5)
     (smap_of [target_node ''t1'' 0] [proxy_node ''p1'' 0] 5) \<and>
   fst (mustRunRebalance True
          \<lparr>smap = smap_of [target_node ''t1'' 0] [proxy_node ''p1'' 0] 5, mustReb = True\<rparr>
          (smap_of [target_node ''t1'' 0] [proxy_node ''p1'' 0] 5))"
  by (simp add: spec_mustRunRebalance_def has_active_target_def absent_or_maintenance_def
      active_def IsAnySet_def GetNode_def GetTarget_def GetProxy_def smap_of_def nodes_of_def
      target_node_def proxy_node_def mustRunRebalance_def)


section \<open>Claims about the heartbeat retries\<close>

text \<open>
  C5. When the first keepalive to the primary fails, \<open>register\<close> retries on the ticks of the
  retry ticker, one retry per tick and at most \<open>kaNumRetries = 3\<close>. In a run without a stop
  signal and without a daemon that is stopping, it goes on tick by tick until a retry succeeds
  or three have failed: with three leading failures it makes exactly three retries and returns
  \<open>stopped = true\<close>; with fewer it returns \<open>stopped = false\<close> right after the first retry that
  succeeds, and waits for the next tick as long as there is none. In any run, a retry that
  succeeds gives \<open>stopped = false\<close>, and three retries that all failed give \<open>stopped = true\<close>.
  When the first keepalive succeeds, \<open>register\<close> returns \<open>stopped = false\<close> without a retry.
  \<open>doKeepalive\<close> invokes \<open>onPrimaryFail\<close> exactly when \<open>register\<close> returned \<open>stopped = true\<close>,
  hence after three failed retries and never when the keepalive or one of its retries
  succeeded.
\<close>

theorem register_retries:
  "length (snd (snd (register k first_failed pid evs))) \<le> kaNumRetries \<and>
   (\<not> first_failed \<longrightarrow>
      fst (register k first_failed pid evs) = Some False \<and>
      snd (snd (register k first_failed pid evs)) = []) \<and>
   ((\<exists>r \<in> set (snd (snd (register k first_failed pid evs))). \<not> attempt_failed r) \<longrightarrow>
      fst (register k first_failed pid evs) = Some False) \<and>
   (length (snd (snd (register k first_failed pid evs))) = kaNumRetries \<and>
    (\<forall>r \<in> set (snd (snd (register k first_failed pid evs))). attempt_failed r) \<longrightarrow>
      fst (register k first_failed pid evs) = Some True) \<and>
   fst (snd (doKeepalive k smap_ok first_failed pid evs)) =
     (smap_ok \<and> fst (register k first_failed pid evs) = Some True) \<and>
   (smap_ok \<longrightarrow>
      fst (doKeepalive k smap_ok first_failed pid evs) = fst (register k first_failed pid evs)) \<and>
   map attempt_failed (snd (snd (register k first_failed pid evs))) =
     map failed (take (length (snd (snd (register k first_failed pid evs)))) (ticks evs)) \<and>
   map attempt_no (snd (snd (register k first_failed pid evs))) =
     [1 ..< 1 + length (snd (snd (register k first_failed pid evs)))] \<and>
   (first_failed \<and> undisturbed evs \<longrightarrow>
      (kaNumRetries \<le> leading_failures evs \<longrightarrow>
         fst (register k first_failed pid evs) = Some True \<and>
         length (snd (snd (register k first_failed pid evs))) = kaNumRetries) \<and>
      (leading_failures evs < kaNumRetries \<and> leading_failures evs < length (ticks evs) \<longrightarrow>
         fst (register k first_failed pid evs) = Some False \<and>
         length (snd (snd (register k first_failed pid evs))) = leading_failures evs + 1) \<and>
      (leading_failures evs < kaNumRetries \<and> leading_failures evs = length (ticks evs) \<longrightarrow>
         fst (register k first_failed pid evs) = None \<and>
         length (snd (snd (register k first_failed pid evs))) = leading_failures evs))"
proof (intro conjI)
  let ?k1 = "snd (timeoutStatsForDaemon k pid)"
  let ?t = "timeout (fst (timeoutStatsForDaemon k pid))"
  have reg: "register k first_failed pid evs =
      (if \<not> first_failed then (Some False, ?k1, []) else register_loop ?k1 pid ?t 0 evs)"
    by (simp add: register_def Let_def split_beta)
  have pos: "0 < kaNumRetries" by (simp add: kaNumRetries_def)
  show "length (snd (snd (register k first_failed pid evs))) \<le> kaNumRetries"
    using register_loop_length [OF pos, of ?k1 pid ?t evs] by (simp add: reg)
  show "\<not> first_failed \<longrightarrow>
      fst (register k first_failed pid evs) = Some False \<and>
      snd (snd (register k first_failed pid evs)) = []"
    by (cases first_failed) (simp_all add: register_def Let_def split_beta)
  show "(\<exists>r \<in> set (snd (snd (register k first_failed pid evs))). \<not> attempt_failed r) \<longrightarrow>
      fst (register k first_failed pid evs) = Some False"
    using register_loop_success [of ?k1 pid ?t 0 evs] by (simp add: reg)
  show "length (snd (snd (register k first_failed pid evs))) = kaNumRetries \<and>
    (\<forall>r \<in> set (snd (snd (register k first_failed pid evs))). attempt_failed r) \<longrightarrow>
      fst (register k first_failed pid evs) = Some True"
    using register_loop_exhausted [OF pos, of ?k1 pid ?t evs] pos by (auto simp: reg)
  show "fst (snd (doKeepalive k smap_ok first_failed pid evs)) =
     (smap_ok \<and> fst (register k first_failed pid evs) = Some True)"
    by (cases "register k first_failed pid evs")
      (auto simp: doKeepalive_def split: option.splits bool.splits)
  show "smap_ok \<longrightarrow>
      fst (doKeepalive k smap_ok first_failed pid evs) = fst (register k first_failed pid evs)"
    by (cases "register k first_failed pid evs")
      (auto simp: doKeepalive_def split: option.splits bool.splits)
  show "map attempt_failed (snd (snd (register k first_failed pid evs))) =
     map failed (take (length (snd (snd (register k first_failed pid evs)))) (ticks evs))"
    using register_loop_failed_flags [of ?k1 pid ?t 0 evs] by (simp add: reg)
  show "map attempt_no (snd (snd (register k first_failed pid evs))) =
     [1 ..< 1 + length (snd (snd (register k first_failed pid evs)))]"
    using register_loop_attempt_numbers [of ?k1 pid ?t 0 evs] by (simp add: reg del: upt_Suc)
  show "first_failed \<and> undisturbed evs \<longrightarrow>
      (kaNumRetries \<le> leading_failures evs \<longrightarrow>
         fst (register k first_failed pid evs) = Some True \<and>
         length (snd (snd (register k first_failed pid evs))) = kaNumRetries) \<and>
      (leading_failures evs < kaNumRetries \<and> leading_failures evs < length (ticks evs) \<longrightarrow>
         fst (register k first_failed pid evs) = Some False \<and>
         length (snd (snd (register k first_failed pid evs))) = leading_failures evs + 1) \<and>
      (leading_failures evs < kaNumRetries \<and> leading_failures evs = length (ticks evs) \<longrightarrow>
         fst (register k first_failed pid evs) = None \<and>
         length (snd (snd (register k first_failed pid evs))) = leading_failures evs)"
  proof
    assume a: "first_failed \<and> undisturbed evs"
    then have r: "register k first_failed pid evs = register_loop ?k1 pid ?t 0 evs"
      using reg by simp
    from a have u: "undisturbed evs" by simp
    show "(kaNumRetries \<le> leading_failures evs \<longrightarrow>
         fst (register k first_failed pid evs) = Some True \<and>
         length (snd (snd (register k first_failed pid evs))) = kaNumRetries) \<and>
      (leading_failures evs < kaNumRetries \<and> leading_failures evs < length (ticks evs) \<longrightarrow>
         fst (register k first_failed pid evs) = Some False \<and>
         length (snd (snd (register k first_failed pid evs))) = leading_failures evs + 1) \<and>
      (leading_failures evs < kaNumRetries \<and> leading_failures evs = length (ticks evs) \<longrightarrow>
         fst (register k first_failed pid evs) = None \<and>
         length (snd (snd (register k first_failed pid evs))) = leading_failures evs)"
      unfolding r using register_loop_progress [OF u pos, of ?k1 pid ?t] by simp
  qed
qed

theorem register_retries_witness:
  "undisturbed [Tick env_failed, Tick env_failed, Tick env_failed, Tick env_ok] \<and>
   leading_failures [Tick env_failed, Tick env_failed, Tick env_failed, Tick env_ok] = 3 \<and>
   length (snd (snd (register ka0 True ''p1''
      [Tick env_failed, Tick env_failed, Tick env_failed, Tick env_ok]))) = 3 \<and>
   fst (register ka0 True ''p1''
      [Tick env_failed, Tick env_failed, Tick env_failed, Tick env_ok]) = Some True \<and>
   fst (snd (doKeepalive ka0 True True ''p1''
      [Tick env_failed, Tick env_failed, Tick env_failed, Tick env_ok])) \<and>
   undisturbed [Tick env_failed, Tick env_failed, Tick env_ok, Tick env_failed] \<and>
   leading_failures [Tick env_failed, Tick env_failed, Tick env_ok, Tick env_failed] = 2 \<and>
   length (snd (snd (register ka0 True ''p1''
      [Tick env_failed, Tick env_failed, Tick env_ok, Tick env_failed]))) = 3 \<and>
   map attempt_failed (snd (snd (register ka0 True ''p1''
      [Tick env_failed, Tick env_failed, Tick env_ok, Tick env_failed]))) = [True, True, False] \<and>
   fst (register ka0 True ''p1''
      [Tick env_failed, Tick env_failed, Tick env_ok, Tick env_failed]) = Some False \<and>
   \<not> fst (snd (doKeepalive ka0 True True ''p1''
      [Tick env_failed, Tick env_failed, Tick env_ok, Tick env_failed])) \<and>
   fst (register ka0 True ''p1'' [Tick env_failed]) = None \<and>
   fst (register ka0 False ''p1'' [Tick env_failed]) = Some False \<and>
   \<not> fst (snd (doKeepalive ka0 True False ''p1'' [Tick env_failed]))"
proof -
  have u: "undisturbed [Tick env_failed, Tick env_failed, Tick env_failed, Tick env_ok]"
    "undisturbed [Tick env_failed, Tick env_failed, Tick env_ok, Tick env_failed]"
    "undisturbed [Tick env_failed]"
    by (simp_all add: undisturbed_def env_failed_def env_ok_def)
  have n: "leading_failures [Tick env_failed, Tick env_failed, Tick env_failed, Tick env_ok] = 3"
    "leading_failures [Tick env_failed, Tick env_failed, Tick env_ok, Tick env_failed] = 2"
    "leading_failures [Tick env_failed] = 1"
    by (simp_all add: leading_failures_def ticks_def env_failed_def env_ok_def)
  have t: "ticks [Tick env_failed, Tick env_failed, Tick env_failed, Tick env_ok] =
      [env_failed, env_failed, env_failed, env_ok]"
    "ticks [Tick env_failed, Tick env_failed, Tick env_ok, Tick env_failed] =
      [env_failed, env_failed, env_ok, env_failed]"
    "ticks [Tick env_failed] = [env_failed]"
    by (simp_all add: ticks_def)
  have f: "failed env_failed" "\<not> failed env_ok"
    by (simp_all add: env_failed_def env_ok_def)
  show ?thesis
    using u n f
      register_retries [of ka0 True "''p1''"
        "[Tick env_failed, Tick env_failed, Tick env_failed, Tick env_ok]" True]
      register_retries [of ka0 True "''p1''"
        "[Tick env_failed, Tick env_failed, Tick env_ok, Tick env_failed]" True]
      register_retries [of ka0 True "''p1''" "[Tick env_failed]" True]
      register_retries [of ka0 False "''p1''" "[Tick env_failed]" True]
    by (simp add: t kaNumRetries_def)
qed





section \<open>Claims about the administrative change of the primary\<close>

text \<open>
  C4. When \<open>cluSetPrimary\<close> issues the prepare broadcast and the result of some node is an
  error, the handler responds with an error and the state of the proxy is unchanged: the map
  of the owner and \<open>inPrimaryTransition\<close> are as before, and beyond the prepare broadcast
  nothing was done, so that \<open>inPrimaryTransition\<close> was never stored to, the map was not
  modified, \<open>becomeNonPrimary\<close> was not called and no commit broadcast was issued.
\<close>

theorem cluSetPrimary_prepare_failure:
  assumes "BcastPrepare \<in> set (snd (snd (cluSetPrimary p req)))"
    and "\<exists>res \<in> set (prepare_results req). res_err res"
  shows "fst (snd (cluSetPrimary p req)) =
           RespErr ''node failed to set primary in the prepare phase'' \<and>
         fst (cluSetPrimary p req) = p \<and>
         snd (snd (cluSetPrimary p req)) = [BcastPrepare] \<and>
         StoreTransition True \<notin> set (snd (snd (cluSetPrimary p req))) \<and>
         ModifySmap \<notin> set (snd (snd (cluSetPrimary p req))) \<and>
         BecomeNonPrimary \<notin> set (snd (snd (cluSetPrimary p req))) \<and>
         BcastCommit \<notin> set (snd (snd (cluSetPrimary p req)))"
  using cluSetPrimary_prepare_failed [OF assms(2), of p] assms(1) by auto

theorem cluSetPrimary_prepare_failure_witness:
  "cluSetPrimary proxy0
     \<lparr>sp_item = Some ''p2'', sp_forwarded = False, sp_cluMeta_ok = True,
      prepare_results = [result_ok ''p2'', result_failed ''t1'', result_ok ''p3''],
      commit_results = []\<rparr> =
     (proxy0, RespErr ''node failed to set primary in the prepare phase'', [BcastPrepare])"
proof -
  let ?req = "\<lparr>sp_item = Some ''p2'', sp_forwarded = False, sp_cluMeta_ok = True,
      prepare_results = [result_ok ''p2'', result_failed ''t1'', result_ok ''p3''],
      commit_results = []\<rparr>"
  have run: "cluSetPrimary proxy0 ?req =
     (proxy0, RespErr ''node failed to set primary in the prepare phase'', [BcastPrepare])"
    by (simp add: cluSetPrimary_def proxy0_def smap_of_def GetProxy_def GetNode_def
        GetTarget_def PresentInMaint_def proxy_node_def target_node_def IsAnySet_def
        NodeFlagsMaintDecomm_def result_ok_def result_failed_def)
  have h1: "BcastPrepare \<in> set (snd (snd (cluSetPrimary proxy0 ?req)))"
    by (simp add: run)
  have h2: "\<exists>res \<in> set (prepare_results ?req). res_err res"
    by (simp add: result_failed_def)
  show ?thesis
    using cluSetPrimary_prepare_failure [OF h1 h2] run by simp
qed


section \<open>Claims about the join handler\<close>








section \<open>Claims about the notification listeners\<close>

text \<open>
  C9. For a listener with a non-empty notifier set \<open>N\<close>, registered as active, and any
  sequence of notifications: if every notifier in \<open>N\<close> has delivered a finished notification,
  or a finished notification of a notifier says aborted, then \<open>Finished()\<close> is true and the
  callback has been invoked exactly once, however many notifications followed; otherwise
  \<open>Finished()\<close> is false and the callback has not been invoked. The aborted flag is set exactly
  when an abort was notified, and stays set under any further notifications.
\<close>

theorem listener_completes_once:
  assumes "N \<noteq> []" and "nls n uuid = Some (newNL uuid N)"
  shows "\<exists>l. entry (run_handler n msgs) uuid = Some l \<and>
           (set N \<subseteq> delivered uuid N msgs \<or> abort_seen uuid N msgs \<longrightarrow>
              Finished l \<and> nl_callbacks l = 1 \<and> fin (run_handler n msgs) uuid = Some l) \<and>
           (\<not> set N \<subseteq> delivered uuid N msgs \<and> \<not> abort_seen uuid N msgs \<longrightarrow>
              \<not> Finished l \<and> nl_callbacks l = 0 \<and> nls (run_handler n msgs) uuid = Some l) \<and>
           nl_aborted l = abort_seen uuid N msgs \<and>
           set (nl_finished l) = delivered uuid N msgs \<and>
           (nl_aborted l \<longrightarrow>
              (\<exists>l'. entry (run_handler n (msgs @ later)) uuid = Some l' \<and> nl_aborted l'))"
proof -
  have eq: "(delivered uuid N msgs = set N) = (set N \<subseteq> delivered uuid N msgs)"
    using delivered_subset [of uuid N msgs] by auto
  from run_handler_registered [OF assms, of msgs]
  obtain l where l: "entry (run_handler n msgs) uuid = Some l"
    "set (nl_finished l) = delivered uuid N msgs" "nl_aborted l = abort_seen uuid N msgs"
    and st: "if abort_seen uuid N msgs \<or> delivered uuid N msgs = set N
       then nls (run_handler n msgs) uuid = None \<and> fin (run_handler n msgs) uuid = Some l \<and>
            nl_callbacks l = 1 \<and> Finished l
       else nls (run_handler n msgs) uuid = Some l \<and> nl_callbacks l = 0 \<and> \<not> Finished l"
    unfolding nl_state_def by blast
  from run_handler_registered [OF assms, of "msgs @ later"]
  obtain l' where l': "entry (run_handler n (msgs @ later)) uuid = Some l'"
    "nl_aborted l' = abort_seen uuid N (msgs @ later)"
    unfolding nl_state_def by blast
  have sticky: "nl_aborted l \<longrightarrow>
      (\<exists>l'. entry (run_handler n (msgs @ later)) uuid = Some l' \<and> nl_aborted l')"
    using l(3) l' abort_seen_append [of uuid N msgs later] by auto
  show ?thesis
    using l st sticky unfolding eq by (intro exI [of _ l]) (auto split: if_splits)
qed

theorem listener_completes_once_witness:
  "map_option nl_callbacks (entry (run_handler notifs0
      [notif_finished ''target1'', notif_progress ''target2'']) ''xact'') = Some 0 \<and>
   map_option Finished (entry (run_handler notifs0
      [notif_finished ''target1'', notif_progress ''target2'']) ''xact'') = Some False \<and>
   map_option nl_callbacks (entry (run_handler notifs0
      [notif_finished ''target1'', notif_progress ''target2'', notif_finished ''target2'',
       notif_finished ''target2'']) ''xact'') = Some 1 \<and>
   map_option Finished (entry (run_handler notifs0
      [notif_finished ''target1'', notif_progress ''target2'', notif_finished ''target2'',
       notif_finished ''target2'']) ''xact'') = Some True \<and>
   map_option nl_callbacks (entry (run_handler notifs0
      [notif_aborted ''target1'', notif_finished ''target2'']) ''xact'') = Some 1 \<and>
   map_option FinCount (entry (run_handler notifs0
      [notif_aborted ''target1'', notif_finished ''target2'']) ''xact'') = Some 2 \<and>
   map_option nl_aborted (entry (run_handler notifs0
      [notif_aborted ''target1'', notif_finished ''target2'']) ''xact'') = Some True"
proof -
  have h1: "[''target1'', ''target2''] \<noteq> []" by simp
  have h2: "nls notifs0 ''xact'' = Some (newNL ''xact'' [''target1'', ''target2''])"
    by (simp add: notifs0_def add_nl_def newNL_def)
  have d1: "\<not> set [''target1'', ''target2''] \<subseteq> delivered ''xact'' [''target1'', ''target2'']
      [notif_finished ''target1'', notif_progress ''target2'']"
    "\<not> abort_seen ''xact'' [''target1'', ''target2'']
      [notif_finished ''target1'', notif_progress ''target2'']"
    by (simp_all add: delivered_Cons delivered_Nil abort_seen_Cons abort_seen_Nil relevant_def
        notif_finished_def notif_progress_def)
  have d2: "set [''target1'', ''target2''] \<subseteq> delivered ''xact'' [''target1'', ''target2'']
      [notif_finished ''target1'', notif_progress ''target2'', notif_finished ''target2'',
       notif_finished ''target2'']"
    by (simp add: delivered_Cons delivered_Nil relevant_def notif_finished_def
        notif_progress_def)
  have d3: "abort_seen ''xact'' [''target1'', ''target2'']
      [notif_aborted ''target1'', notif_finished ''target2'']"
    by (simp add: abort_seen_Cons abort_seen_Nil relevant_def notif_aborted_def)
  have c: "map_option FinCount (entry (run_handler notifs0
      [notif_aborted ''target1'', notif_finished ''target2'']) ''xact'') = Some 2"
    by (simp add: notifs0_def add_nl_def newNL_def handler_def entry_def markFinished_def
        merge_stats_def store_nl_def done_nl_def all_finished_def FinCount_def
        notif_aborted_def notif_finished_def Let_def)
  show ?thesis
    using d1 d2 d3 c
      listener_completes_once [OF h1 h2, of "[notif_finished ''target1'', notif_progress ''target2'']" "[]"]
      listener_completes_once [OF h1 h2, of "[notif_finished ''target1'', notif_progress ''target2'',
         notif_finished ''target2'', notif_finished ''target2'']" "[]"]
      listener_completes_once [OF h1 h2, of "[notif_aborted ''target1'', notif_finished ''target2'']" "[]"]
    by auto
qed


end
